theory Spec2Isabelle
  imports Complex_Main "HOL-Library.Multiset"
begin

section \<open>The RAG route: names, namespaces and identifiers\<close>

text \<open>
  The development follows \<^verbatim>\<open>frontend/app/api/RAG/route.ts\<close>. JavaScript strings are
  modelled as \<^typ>\<open>string\<close>: a list of code units below 256. The process environment
  is a record of the variables the module reads when it is loaded.
\<close>

record config =
  PINECONE_INDEX :: "string option"
  PINECONE_API_KEY :: "string option"
  GOOGLE_API_KEY :: "string option"

text \<open>
  \<^verbatim>\<open>indexName?: string | number | null\<close> and \<^verbatim>\<open>videoId?: string | number\<close>: a value that is
  present is a string or a number; an absent one (\<^verbatim>\<open>undefined\<close>, \<^verbatim>\<open>null\<close>) is \<^term>\<open>None\<close>.
  Numbers are the integers that JavaScript represents exactly (up to \<open>2^53\<close> in absolute
  value), which \<^verbatim>\<open>toString\<close> prints in decimal.
\<close>

datatype idval = IdStr string | IdNum int

definition DEFAULT_INDEX_NAME :: "config \<Rightarrow> string" where
  "DEFAULT_INDEX_NAME cfg = (case PINECONE_INDEX cfg of None \<Rightarrow> ''video-frames'' | Some s \<Rightarrow> s)"

definition DEFAULT_NAMESPACE :: string where
  "DEFAULT_NAMESPACE = ''frames''"

definition EMBEDDING_DIMENSION :: nat where
  "EMBEDDING_DIMENSION = 3072"

fun digitsOf :: "nat \<Rightarrow> string" where
  "digitsOf n =
     (if n < 10 then [''0123456789'' ! n]
      else digitsOf (n div 10) @ [''0123456789'' ! (n mod 10)])"

declare digitsOf.simps [simp del]

definition numberToString :: "int \<Rightarrow> string" where
  "numberToString i = (if i < 0 then CHR ''-'' # digitsOf (nat (- i)) else digitsOf (nat i))"

text \<open>
  \<^verbatim>\<open>toLowerCase\<close> on one code unit. Code units from 128 to 255 are left as they are: their
  lower-case forms are outside \<^verbatim>\<open>[a-z0-9-]\<close> as well, so the next replacement turns
  either form into a dash.
\<close>

definition toLowerCase_char :: "char \<Rightarrow> char" where
  "toLowerCase_char c =
     (case map_of (zip ''ABCDEFGHIJKLMNOPQRSTUVWXYZ'' ''abcdefghijklmnopqrstuvwxyz'') c of
        Some d \<Rightarrow> d
      | None \<Rightarrow> c)"

definition toLowerCase :: "string \<Rightarrow> string" where
  "toLowerCase s = map toLowerCase_char s"

text \<open>The character class \<^verbatim>\<open>[a-z0-9-]\<close>, and the dash alone.\<close>

definition validChar :: "char \<Rightarrow> bool" where
  "validChar c = (c \<in> set ''abcdefghijklmnopqrstuvwxyz0123456789-'')"

definition isDash :: "char \<Rightarrow> bool" where
  "isDash c = (c = CHR ''-'')"

text \<open>
  \<^verbatim>\<open>s.replace(/[C]+/g, rep)\<close> for a character class \<open>C\<close>: scanning from the left, every
  maximal run of characters of the class is replaced by \<open>rep\<close>.
\<close>

function replaceRuns :: "(char \<Rightarrow> bool) \<Rightarrow> string \<Rightarrow> string \<Rightarrow> string" where
  "replaceRuns P rep [] = []"
| "replaceRuns P rep (c # cs) =
     (if P c then rep @ replaceRuns P rep (dropWhile P cs) else c # replaceRuns P rep cs)"
  by pat_completeness auto
termination
  by (relation "measure (\<lambda>(P, rep, s). length s)")
     (auto simp: length_dropWhile_le less_Suc_eq_le)

text \<open>\<^verbatim>\<open>s.replace(/^-+|-+$/g, "")\<close>: the leading and the trailing run of dashes go.\<close>

definition trimDashes :: "string \<Rightarrow> string" where
  "trimDashes s = rev (dropWhile isDash (rev (dropWhile isDash s)))"

definition candidateOf :: "config \<Rightarrow> idval option \<Rightarrow> string" where
  "candidateOf cfg raw =
     (case raw of
        Some (IdNum n) \<Rightarrow> numberToString n
      | Some (IdStr s) \<Rightarrow> s
      | None \<Rightarrow> DEFAULT_INDEX_NAME cfg)"

definition trimmedOf :: "string \<Rightarrow> string" where
  "trimmedOf candidate =
     (let lowered = toLowerCase candidate;
          replaced = replaceRuns (\<lambda>c. \<not> validChar c) ''-'' lowered;
          collapsed = replaceRuns isDash ''-'' replaced
      in trimDashes collapsed)"

definition sanitizeIndexName :: "config \<Rightarrow> idval option \<Rightarrow> string" where
  "sanitizeIndexName cfg raw =
     (let fallback = DEFAULT_INDEX_NAME cfg;
          trimmed = trimmedOf (candidateOf cfg raw);
          safe = (if trimmed = [] then fallback else trimmed)
      in take 45 safe)"

definition resolveIndexName :: "config \<Rightarrow> idval option \<Rightarrow> string" where
  "resolveIndexName cfg raw = sanitizeIndexName cfg raw"

text \<open>\<^verbatim>\<open>!videoId\<close> for a value that is present: the empty string and the number 0.\<close>

fun falsy :: "idval \<Rightarrow> bool" where
  "falsy (IdStr s) = (s = [])"
| "falsy (IdNum n) = (n = 0)"

definition getNamespace :: "config \<Rightarrow> idval option \<Rightarrow> string" where
  "getNamespace cfg videoId =
     (case videoId of
        None \<Rightarrow> DEFAULT_NAMESPACE
      | Some v \<Rightarrow> if falsy v then DEFAULT_NAMESPACE else ''video-'' @ sanitizeIndexName cfg (Some v))"

text \<open>Letters and digits: the class \<^verbatim>\<open>[a-z0-9-]\<close> without the dash.\<close>

definition alnumChar :: "char \<Rightarrow> bool" where
  "alnumChar c = (validChar c \<and> \<not> isDash c)"

text \<open>
  For the statement of the result: the maximal runs of letters and digits of a string,
  and the runs joined by single dashes.
\<close>

function alnumRuns :: "string \<Rightarrow> string list" where
  "alnumRuns [] = []"
| "alnumRuns (c # cs) =
     (if alnumChar c then (c # takeWhile alnumChar cs) # alnumRuns (dropWhile alnumChar cs)
      else alnumRuns cs)"
  by pat_completeness auto
termination
  by (relation "measure length") (auto simp: length_dropWhile_le less_Suc_eq_le)

fun joinDashes :: "string list \<Rightarrow> string" where
  "joinDashes [] = []"
| "joinDashes [w] = w"
| "joinDashes (w # v # ws) = w @ ''-'' @ joinDashes (v # ws)"

section \<open>Values exchanged with the external services\<close>

text \<open>
  A metadata value of the vector store (the route notes that the store keeps strings,
  numbers, booleans and arrays of strings), with the two absent values of JavaScript.
  A metadata object is an association list from field names to values; a field that is
  not there reads as \<^verbatim>\<open>undefined\<close>.
\<close>

datatype jsval = JUndefined | JNull | JNum real | JStr string | JBool bool | JStrs "string list"

type_synonym metadata = "(string \<times> jsval) list"

definition field :: "metadata \<Rightarrow> string \<Rightarrow> jsval" where
  "field md k = (case map_of md k of None \<Rightarrow> JUndefined | Some v \<Rightarrow> v)"

text \<open>\<^verbatim>\<open>x ?? y\<close> on metadata values.\<close>

definition nullish :: "jsval \<Rightarrow> bool" where
  "nullish v = (v = JUndefined \<or> v = JNull)"

definition orElse :: "jsval \<Rightarrow> jsval \<Rightarrow> jsval" where
  "orElse x y = (if nullish x then y else x)"

text \<open>\<^verbatim>\<open>typeof v === "number"\<close>.\<close>

fun isNumber :: "jsval \<Rightarrow> bool" where
  "isNumber (JNum r) = True"
| "isNumber v = False"

record match =
  m_id :: string
  m_score :: "real option"
  m_values :: "real list"
  m_metadata :: "metadata option"

record citation =
  c_id :: string
  c_score :: "real option"
  c_metadata :: "metadata option"

record frame =
  frameId :: idval
  timestamp :: real
  description :: "string option"
  path :: string

record rust_frame_record =
  frame_id :: idval
  r_timestamp :: real
  r_description :: "string option"
  r_path :: string

record vector =
  v_id :: string
  v_values :: "real list"
  v_metadata :: metadata

record overview_frame =
  o_id :: string
  o_score :: "real option"
  o_frame_id :: jsval
  o_timestamp :: jsval
  o_description :: jsval
  o_path :: jsval

text \<open>Every \<^verbatim>\<open>throw\<close> of the route, and an error thrown by a client of an external service.\<close>

datatype error =
    MissingPineconeClient
  | MissingGeminiClient
  | NoTextProvided
  | NoEmbeddingVector
  | ProvisionTimeout string
  | FrameEmbeddingFailed idval
  | QueryEmbeddingFailed
  | ServiceError string

datatype warning = DimensionMismatch nat nat | ManifestVectorFailed error

text \<open>
  What a request does to the outside world, in order: the calls to the vector store, to
  the embedding service and to the generation service, the pause of the readiness poll
  and the warnings written to the console. The generation call carries the question and
  the ordered matches, of which the prompt text is a function.
\<close>

datatype effect =
    ListIndexes
  | CreateIndex string
  | DescribeIndex string
  | Sleep nat
  | EmbedContent string
  | Upsert string string "vector list"
  | QueryIndex string string "real list" int
  | FetchRecords string string "string list"
  | GenerateContent string "match list"
  | ConsoleWarn warning

fun isNetworkCall :: "effect \<Rightarrow> bool" where
  "isNetworkCall (Sleep ms) = False"
| "isNetworkCall (ConsoleWarn w) = False"
| "isNetworkCall e = True"

fun isProvisioningCall :: "effect \<Rightarrow> bool" where
  "isProvisioningCall ListIndexes = True"
| "isProvisioningCall (CreateIndex n) = True"
| "isProvisioningCall (DescribeIndex n) = True"
| "isProvisioningCall (Sleep ms) = True"
| "isProvisioningCall e = False"

text \<open>An awaited call to an external service throws or returns.\<close>

datatype 'a outcome = Throws string | Returns 'a

text \<open>
  The answer of \<^verbatim>\<open>listIndexes\<close> is untyped: nothing, an array of names or of objects
  with an optional \<^verbatim>\<open>name\<close>, an object with an optional \<^verbatim>\<open>indexes\<close> array, or anything
  else.
\<close>

datatype index_item = ItemString string | ItemObject "string option"

datatype index_listing =
    ListingNothing
  | ListingArray "index_item list"
  | ListingObject "index_item list option"
  | ListingOther

text \<open>
  The answer of \<^verbatim>\<open>describeIndex\<close>: \<^verbatim>\<open>description?.status?.ready\<close> when it is a boolean and
  \<^verbatim>\<open>description?.status?.state\<close> when it is a string.
\<close>

record index_description =
  status_ready :: "bool option"
  status_state :: "string option"

text \<open>
  The response of the generation service: \<^verbatim>\<open>response.text\<close>, when there, is a method that
  throws or returns a string or nothing; \<^verbatim>\<open>response.candidates?.[0]?.content?.parts\<close>, when
  there, is the list of the \<^verbatim>\<open>text\<close> fields of the first candidate's parts.
\<close>

record generation_response =
  text_method :: "string option outcome option"
  first_candidate_parts :: "string option list option"

text \<open>
  The external world. The answers are functions of the request; the readiness poll also
  passes the number of the attempt, as the index becomes ready with time. The fetch
  answers with the metadata of the record kept under the requested identifier, if any.
\<close>

record services =
  listIndexes :: "index_listing outcome"
  createIndex :: "string \<Rightarrow> unit outcome"
  describeIndex :: "string \<Rightarrow> nat \<Rightarrow> index_description outcome"
  embedContent :: "string \<Rightarrow> real list option outcome"
  upsert :: "string \<Rightarrow> string \<Rightarrow> vector list \<Rightarrow> unit outcome"
  queryIndex :: "string \<Rightarrow> string \<Rightarrow> real list \<Rightarrow> int \<Rightarrow> match list option outcome"
  fetchRecords :: "string \<Rightarrow> string \<Rightarrow> string \<Rightarrow> metadata option outcome"
  generateContent :: "string \<Rightarrow> match list \<Rightarrow> generation_response option outcome"

definition hasPineconeClient :: "config \<Rightarrow> bool" where
  "hasPineconeClient cfg = (case PINECONE_API_KEY cfg of None \<Rightarrow> False | Some k \<Rightarrow> k \<noteq> [])"

definition hasGeminiClient :: "config \<Rightarrow> bool" where
  "hasGeminiClient cfg = (case GOOGLE_API_KEY cfg of None \<Rightarrow> False | Some k \<Rightarrow> k \<noteq> [])"

definition requireClients :: "config \<Rightarrow> error option" where
  "requireClients cfg =
     (if \<not> hasPineconeClient cfg then Some MissingPineconeClient
      else if \<not> hasGeminiClient cfg then Some MissingGeminiClient
      else None)"

section \<open>The embedding adapter\<close>

definition checkEmbeddingDimensions :: "real list \<Rightarrow> effect list" where
  "checkEmbeddingDimensions vals =
     (if length vals \<noteq> EMBEDDING_DIMENSION
      then [ConsoleWarn (DimensionMismatch EMBEDDING_DIMENSION (length vals))]
      else [])"

text \<open>One element of \<^verbatim>\<open>texts.map(async (text) => ...)\<close>: its result and its warning.\<close>

definition embedOne :: "services \<Rightarrow> string \<Rightarrow> error + real list" where
  "embedOne svc text =
     (case embedContent svc text of
        Throws msg \<Rightarrow> Inl (ServiceError msg)
      | Returns None \<Rightarrow> Inl NoEmbeddingVector
      | Returns (Some vals) \<Rightarrow> if vals = [] then Inl NoEmbeddingVector else Inr vals)"

definition embedWarnings :: "error + real list \<Rightarrow> effect list" where
  "embedWarnings r = (case r of Inl e \<Rightarrow> [] | Inr vals \<Rightarrow> checkEmbeddingDimensions vals)"

text \<open>
  \<^verbatim>\<open>Promise.all\<close>: the results in the order of the promises, or a rejection. When several
  promises reject, the model takes the first of the list.
\<close>

fun promiseAll :: "(error + 'a) list \<Rightarrow> error + 'a list" where
  "promiseAll [] = Inr []"
| "promiseAll (Inl e # rs) = Inl e"
| "promiseAll (Inr v # rs) = (case promiseAll rs of Inl e \<Rightarrow> Inl e | Inr vs \<Rightarrow> Inr (v # vs))"

text \<open>
  The calls go out for every text before the first answer is awaited; the warnings
  follow as the answers come in.
\<close>

definition embedTexts :: "config \<Rightarrow> services \<Rightarrow> string list \<Rightarrow> (error + real list list) \<times> effect list" where
  "embedTexts cfg svc texts =
     (if texts = [] then (Inl NoTextProvided, [])
      else if \<not> hasGeminiClient cfg then (Inl MissingGeminiClient, [])
      else (let results = map (embedOne svc) texts
            in (promiseAll results,
                map EmbedContent texts @ concat (map embedWarnings results))))"

section \<open>The provisioning coordinator\<close>

fun itemName :: "index_item \<Rightarrow> string option" where
  "itemName (ItemString s) = Some s"
| "itemName (ItemObject n) = n"

text \<open>The names that survive \<^verbatim>\<open>Boolean(item?.name)\<close>: there and not empty.\<close>

definition itemNames :: "index_item list \<Rightarrow> string list" where
  "itemNames items = concat (map (\<lambda>item. case itemName item of
                                      None \<Rightarrow> []
                                    | Some n \<Rightarrow> if n = [] then [] else [n]) items)"

fun normalizeIndexList :: "index_listing \<Rightarrow> string list" where
  "normalizeIndexList ListingNothing = []"
| "normalizeIndexList (ListingArray items) = itemNames items"
| "normalizeIndexList (ListingObject (Some items)) = itemNames items"
| "normalizeIndexList (ListingObject None) = []"
| "normalizeIndexList ListingOther = []"

definition describedReady :: "index_description outcome \<Rightarrow> bool" where
  "describedReady d =
     (case d of
        Throws msg \<Rightarrow> False
      | Returns desc \<Rightarrow> status_ready desc = Some True \<or> status_state desc = Some ''Ready'')"

text \<open>
  The readiness poll, \<^verbatim>\<open>for (attempt = 0; attempt < maxAttempts; attempt += 1)\<close>: the
  number of the attempt and the attempts that remain. A description that throws counts
  as not ready; after a description that is not ready the loop sleeps for two seconds.
\<close>

fun pollIndex :: "services \<Rightarrow> string \<Rightarrow> nat \<Rightarrow> nat \<Rightarrow> (error + unit) \<times> effect list" where
  "pollIndex svc name attempt 0 = (Inl (ProvisionTimeout name), [])"
| "pollIndex svc name attempt (Suc remaining) =
     (if describedReady (describeIndex svc name attempt)
      then (Inr (), [DescribeIndex name])
      else (let (r, es) = pollIndex svc name (Suc attempt) remaining
            in (r, DescribeIndex name # Sleep 2000 # es)))"

definition maxAttempts :: nat where
  "maxAttempts = 150"

text \<open>The body of the \<^verbatim>\<open>initializer\<close>: list, create if the name is not there, poll.\<close>

definition initializer :: "services \<Rightarrow> string \<Rightarrow> (error + unit) \<times> effect list" where
  "initializer svc name =
     (case listIndexes svc of
        Throws msg \<Rightarrow> (Inl (ServiceError msg), [ListIndexes])
      | Returns listing \<Rightarrow>
          if name \<in> set (normalizeIndexList listing)
          then (let (r, es) = pollIndex svc name 0 maxAttempts in (r, ListIndexes # es))
          else (case createIndex svc name of
                  Throws msg \<Rightarrow> (Inl (ServiceError msg), [ListIndexes, CreateIndex name])
                | Returns u \<Rightarrow>
                    (let (r, es) = pollIndex svc name 0 maxAttempts
                     in (r, ListIndexes # CreateIndex name # es))))"

text \<open>
  The process-wide state. Every promise \<^verbatim>\<open>initializer\<close> ever created is an entry of
  \<open>attempts\<close>, with the index name it closes over and its state; a promise is named by
  its position. \<open>indexInitPromises\<close> is the module's \<^verbatim>\<open>Map\<close> from names to promises.
\<close>

datatype promise_state = Pending | Fulfilled | Rejected error

record provisioning =
  attempts :: "(string \<times> promise_state) list"
  indexInitPromises :: "string \<rightharpoonup> nat"

definition noAttempts :: provisioning where
  "noAttempts = \<lparr>attempts = [], indexInitPromises = Map.empty\<rparr>"

text \<open>
  The part of \<^verbatim>\<open>ensureIndexReady\<close> that runs when no promise is kept under the name, up
  to its \<^verbatim>\<open>await\<close>: the promise is created and stored in the map in one synchronous
  stretch.
\<close>

definition startAttempt :: "provisioning \<Rightarrow> string \<Rightarrow> provisioning \<times> nat" where
  "startAttempt s name =
     (let h = length (attempts s)
      in (s\<lparr>attempts := attempts s @ [(name, Pending)],
            indexInitPromises := (indexInitPromises s)(name \<mapsto> h)\<rparr>, h))"

text \<open>
  An attempt settles: with a result it becomes fulfilled; with an error the \<^verbatim>\<open>catch\<close>
  handler deletes the entry of its name from the map and rethrows, so the promise
  becomes rejected.
\<close>

definition settleAttempt :: "provisioning \<Rightarrow> nat \<Rightarrow> error + unit \<Rightarrow> provisioning" where
  "settleAttempt s h r =
     (if h < length (attempts s)
      then (let name = fst (attempts s ! h)
            in case r of
                 Inr u \<Rightarrow> s\<lparr>attempts := (attempts s)[h := (name, Fulfilled)]\<rparr>
               | Inl e \<Rightarrow> s\<lparr>attempts := (attempts s)[h := (name, Rejected e)],
                            indexInitPromises := (indexInitPromises s)(name := None)\<rparr>)
      else s)"

text \<open>
  \<^verbatim>\<open>await existing\<close>: the outcome of a promise that is kept in the map. A promise that is
  still pending settles with what its initializer returns; the calls of that
  initializer belong to the request that started it.
\<close>

definition awaitAttempt :: "services \<Rightarrow> provisioning \<Rightarrow> nat \<Rightarrow> (error + unit) \<times> effect list \<times> provisioning" where
  "awaitAttempt svc s h =
     (case snd (attempts s ! h) of
        Fulfilled \<Rightarrow> (Inr (), [], s)
      | Rejected e \<Rightarrow> (Inl e, [], s)
      | Pending \<Rightarrow> (let r = fst (initializer svc (fst (attempts s ! h)))
                    in (r, [], settleAttempt s h r)))"

text \<open>
  One call of \<^verbatim>\<open>ensureIndexReady\<close>, run until it returns or throws: its outcome, the
  effects of this call and the state it leaves.
\<close>

definition ensureIndexReady :: "config \<Rightarrow> services \<Rightarrow> provisioning \<Rightarrow> string \<Rightarrow> (error + unit) \<times> effect list \<times> provisioning" where
  "ensureIndexReady cfg svc s indexName =
     (if \<not> hasPineconeClient cfg then (Inl MissingPineconeClient, [], s)
      else case indexInitPromises s indexName of
             Some existing \<Rightarrow> awaitAttempt svc s existing
           | None \<Rightarrow>
               (let (s1, h) = startAttempt s indexName;
                    (r, es) = initializer svc indexName
                in (r, es, settleAttempt s1 h r)))"

text \<open>
  Concurrent requests: calls of \<^verbatim>\<open>ensureIndexReady\<close> and settlements of pending attempts
  interleave at the \<^verbatim>\<open>await\<close>s. A call is its synchronous stretch; a settlement carries
  the outcome of the attempt's initializer, whatever the store made it.
\<close>

datatype event = Call string | Settle nat "error + unit"

fun step :: "provisioning \<Rightarrow> event \<Rightarrow> provisioning" where
  "step s (Call name) =
     (case indexInitPromises s name of
        Some existing \<Rightarrow> s
      | None \<Rightarrow> fst (startAttempt s name))"
| "step s (Settle h r) =
     (if h < length (attempts s) \<and> snd (attempts s ! h) = Pending
      then settleAttempt s h r
      else s)"

definition runEvents :: "event list \<Rightarrow> provisioning" where
  "runEvents evs = foldl step noAttempts evs"

text \<open>The attempts for a name that are in flight.\<close>

definition inFlight :: "provisioning \<Rightarrow> string \<Rightarrow> nat list" where
  "inFlight s name =
     filter (\<lambda>h. attempts s ! h = (name, Pending)) [0..<length (attempts s)]"

text \<open>
  The map and the promises agree: a promise kept under a name was started for that name
  and is not rejected, and every pending promise is the one kept under its name.
\<close>

definition cacheInvariant :: "provisioning \<Rightarrow> bool" where
  "cacheInvariant s =
     ((\<forall>name h. indexInitPromises s name = Some h \<longrightarrow>
         h < length (attempts s) \<and> fst (attempts s ! h) = name
         \<and> (\<forall>e. snd (attempts s ! h) \<noteq> Rejected e))
      \<and> (\<forall>h < length (attempts s). snd (attempts s ! h) = Pending \<longrightarrow>
           indexInitPromises s (fst (attempts s ! h)) = Some h))"

section \<open>The request handler\<close>

record final_ingest_request =
  fin_indexName :: "idval option"
  fin_videoFile :: "string option"
  fin_videoId :: "idval option"
  fin_videoFilename :: "string option"
  fin_summary :: "string option"
  fin_skipEnsure :: bool
  fin_records :: "rust_frame_record list option"
  fin_frames :: "frame list option"

text \<open>\<open>ing_frames\<close> is \<^term>\<open>None\<close> when the field is not an array.\<close>

record ingest_request =
  ing_indexName :: "idval option"
  ing_videoId :: "idval option"
  ing_skipEnsure :: bool
  ing_frames :: "frame list option"

text \<open>The payloads of \<^verbatim>\<open>query\<close> and of \<^verbatim>\<open>analyze\<close> have the same fields.\<close>

record question_request =
  q_indexName :: "idval option"
  q_videoId :: "idval option"
  q_question :: "string option"
  q_topK :: "int option"
  q_skipEnsure :: bool

record overview_request =
  ov_indexName :: "idval option"
  ov_videoId :: "idval option"
  ov_topK :: "int option"
  ov_skipEnsure :: bool

datatype payload =
    FinalIngest final_ingest_request
  | Ingest ingest_request
  | Query question_request
  | Analyze question_request
  | Overview overview_request
  | OtherAction

text \<open>
  The responses: the bodies with \<^verbatim>\<open>status: "ok"\<close>, the error with HTTP status 400 and its
  message, and the error with HTTP status 500 that the outer \<^verbatim>\<open>catch\<close> builds.
\<close>

datatype response =
    FinalIngestOk nat string string bool
  | IngestOk nat string string
  | QueryOk "match list" string
  | AnalyzeOk string "citation list" string
  | OverviewOk jsval "overview_frame list" string string
  | BadRequest string
  | ServerError error

definition idToString :: "idval \<Rightarrow> string" where
  "idToString v = (case v of IdStr s \<Rightarrow> s | IdNum n \<Rightarrow> numberToString n)"

definition idToJs :: "idval \<Rightarrow> jsval" where
  "idToJs v = (case v of IdStr s \<Rightarrow> JStr s | IdNum n \<Rightarrow> JNum (of_int n))"

definition optionalString :: "string option \<Rightarrow> jsval" where
  "optionalString t = (case t of None \<Rightarrow> JUndefined | Some s \<Rightarrow> JStr s)"

text \<open>\<^verbatim>\<open>videoId?.toString() ?? "1"\<close>, which is also \<^verbatim>\<open>`${videoId ?? "1"}`\<close>.\<close>

definition videoIdString :: "idval option \<Rightarrow> string" where
  "videoIdString videoId = (case videoId of None \<Rightarrow> ''1'' | Some v \<Rightarrow> idToString v)"

definition filenameField :: "string option \<Rightarrow> metadata" where
  "filenameField videoFilename =
     (case videoFilename of
        None \<Rightarrow> []
      | Some f \<Rightarrow> if f = [] then [] else [(''video_filename'', JStr f)])"

definition frameMetadata :: "idval option \<Rightarrow> frame \<Rightarrow> metadata" where
  "frameMetadata videoId f =
     [(''video_id'', JStr (videoIdString videoId)),
      (''frame_id'', idToJs (frameId f)),
      (''timestamp'', JNum (timestamp f)),
      (''description'', optionalString (description f)),
      (''path'', JStr (path f))]"

definition frameVectorId :: "config \<Rightarrow> idval option \<Rightarrow> frame \<Rightarrow> string" where
  "frameVectorId cfg videoId f = getNamespace cfg videoId @ ''::'' @ idToString (frameId f)"

definition descriptionsOf :: "frame list \<Rightarrow> string list" where
  "descriptionsOf frames = map (\<lambda>f. case description f of None \<Rightarrow> [] | Some d \<Rightarrow> d) frames"

text \<open>\<^verbatim>\<open>String.prototype.trim\<close>, on the white space below code unit 256.\<close>

definition isWhitespace :: "char \<Rightarrow> bool" where
  "isWhitespace c = (c \<in> set [CHR 0x09, CHR 0x0A, CHR 0x0B, CHR 0x0C, CHR 0x0D, CHR 0x20, CHR 0xA0])"

definition trim :: "string \<Rightarrow> string" where
  "trim s = rev (dropWhile isWhitespace (rev (dropWhile isWhitespace s)))"

text \<open>\<^verbatim>\<open>summary && summary.trim().length > 0\<close>.\<close>

definition summaryGiven :: "string option \<Rightarrow> bool" where
  "summaryGiven summary =
     (case summary of None \<Rightarrow> False | Some t \<Rightarrow> t \<noteq> [] \<and> length (trim t) > 0)"

definition ensureUnlessSkipped :: "config \<Rightarrow> services \<Rightarrow> provisioning \<Rightarrow> bool \<Rightarrow> string \<Rightarrow> (error + unit) \<times> effect list \<times> provisioning" where
  "ensureUnlessSkipped cfg svc s skipEnsure indexName =
     (if \<not> skipEnsure then ensureIndexReady cfg svc s indexName else (Inr (), [], s))"

subsection \<open>Action \<^verbatim>\<open>ingest_final\<close>\<close>

definition recordFrames :: "rust_frame_record list option \<Rightarrow> frame list" where
  "recordFrames records =
     map (\<lambda>r. \<lparr>frameId = frame_id r, timestamp = r_timestamp r,
               description = r_description r, path = r_path r\<rparr>)
         (case records of None \<Rightarrow> [] | Some rs \<Rightarrow> rs)"

definition finalFrames :: "final_ingest_request \<Rightarrow> frame list" where
  "finalFrames p =
     (case fin_frames p of
        Some fs \<Rightarrow> if length fs > 0 then fs else recordFrames (fin_records p)
      | None \<Rightarrow> recordFrames (fin_records p))"

text \<open>
  \<^verbatim>\<open>frames.map((frame, index) => ...)\<close> with \<^verbatim>\<open>values: embeddings[index]\<close>; the embeddings
  come from \<open>embedTexts\<close> on the descriptions of the same frames.
\<close>

definition finalFrameVectors :: "config \<Rightarrow> idval option \<Rightarrow> string option \<Rightarrow> frame list \<Rightarrow> real list list \<Rightarrow> vector list" where
  "finalFrameVectors cfg videoId videoFilename frames embeddings =
     map (\<lambda>(index, f).
            \<lparr>v_id = frameVectorId cfg videoId f,
             v_values = embeddings ! index,
             v_metadata = frameMetadata videoId f @ filenameField videoFilename\<rparr>)
         (enumerate 0 frames)"

definition summaryVector :: "config \<Rightarrow> idval option \<Rightarrow> string \<Rightarrow> real list \<Rightarrow> vector" where
  "summaryVector cfg videoId summary sumVec =
     \<lparr>v_id = getNamespace cfg videoId @ ''::summary'',
      v_values = sumVec,
      v_metadata = [(''video_id'', JStr (videoIdString videoId)),
                    (''summary'', JBool True),
                    (''text'', JStr summary)]\<rparr>"

definition manifestVector :: "config \<Rightarrow> idval option \<Rightarrow> string option \<Rightarrow> frame list \<Rightarrow> real list \<Rightarrow> vector" where
  "manifestVector cfg videoId videoFilename frames manVec =
     \<lparr>v_id = getNamespace cfg videoId @ ''::manifest'',
      v_values = manVec,
      v_metadata = [(''video_id'', JStr (videoIdString videoId)),
                    (''manifest'', JBool True),
                    (''count'', JNum (of_nat (length frames))),
                    (''first_timestamp'', JNum (case frames of [] \<Rightarrow> 0 | f # fs \<Rightarrow> timestamp f)),
                    (''last_timestamp'', JNum (if frames = [] then 0 else timestamp (last frames)))]
                   @ filenameField videoFilename\<rparr>"

text \<open>\<^verbatim>\<open>const [v] = await embedTexts([text])\<close>: the first vector, if there is one.\<close>

definition firstVector :: "real list list \<Rightarrow> real list option" where
  "firstVector embeddings = (case embeddings of [] \<Rightarrow> None | v # vs \<Rightarrow> Some v)"

text \<open>
  The optional summary vector: nothing to add, a failure of the embedding (which fails
  the request), or the vector.
\<close>

definition summaryStep :: "config \<Rightarrow> services \<Rightarrow> idval option \<Rightarrow> string option \<Rightarrow> (error + vector list) \<times> effect list" where
  "summaryStep cfg svc videoId summary =
     (if summaryGiven summary
      then (let text = (case summary of None \<Rightarrow> [] | Some t \<Rightarrow> t);
                (r, es) = embedTexts cfg svc [text]
            in case r of
                 Inl e \<Rightarrow> (Inl e, es)
               | Inr embeddings \<Rightarrow>
                   (Inr [summaryVector cfg videoId text
                           (case firstVector embeddings of None \<Rightarrow> [] | Some v \<Rightarrow> v)], es))
      else (Inr [], []))"

text \<open>
  The manifest vector inside its \<^verbatim>\<open>try\<close>: a failure of the embedding is caught, written
  to the console, and no vector is added.
\<close>

definition manifestStep :: "config \<Rightarrow> services \<Rightarrow> idval option \<Rightarrow> string option \<Rightarrow> frame list \<Rightarrow> vector list \<times> effect list" where
  "manifestStep cfg svc videoId videoFilename frames =
     (let (r, es) = embedTexts cfg svc [''manifest video '' @ videoIdString videoId]
      in case r of
           Inl e \<Rightarrow> ([], es @ [ConsoleWarn (ManifestVectorFailed e)])
         | Inr embeddings \<Rightarrow>
             ([manifestVector cfg videoId videoFilename frames
                 (case firstVector embeddings of None \<Rightarrow> [] | Some v \<Rightarrow> v)], es))"

definition finalIngestBody :: "config \<Rightarrow> services \<Rightarrow> final_ingest_request \<Rightarrow> string \<Rightarrow> response \<times> effect list" where
  "finalIngestBody cfg svc p indexName =
     (let frames = finalFrames p;
          videoId = fin_videoId p
      in if length frames = 0
         then (BadRequest ''No frames/records provided for final ingestion.'', [])
         else
           (let namespace = getNamespace cfg videoId;
                (er, es1) = embedTexts cfg svc (descriptionsOf frames)
            in case er of
                 Inl e \<Rightarrow> (ServerError e, es1)
               | Inr embeddings \<Rightarrow>
                   (let vectors = finalFrameVectors cfg videoId (fin_videoFilename p) frames embeddings;
                        (sr, es2) = summaryStep cfg svc videoId (fin_summary p)
                    in case sr of
                         Inl e \<Rightarrow> (ServerError e, es1 @ es2)
                       | Inr summaryVectors \<Rightarrow>
                           (let (manifestVectors, es3) =
                                  manifestStep cfg svc videoId (fin_videoFilename p) frames;
                                extraVectors = summaryVectors @ manifestVectors;
                                es = es1 @ es2 @ es3 @ [Upsert indexName namespace (vectors @ extraVectors)]
                            in case upsert svc indexName namespace (vectors @ extraVectors) of
                                 Throws msg \<Rightarrow> (ServerError (ServiceError msg), es)
                               | Returns u \<Rightarrow>
                                   (FinalIngestOk (length vectors + length extraVectors)
                                      namespace indexName (length extraVectors \<noteq> 0), es)))))"

text \<open>
  In every action the handler resolves the index name, ensures the index unless told to
  skip, and goes on with the body of the action if that did not throw.
\<close>

definition afterEnsure :: "(error + unit) \<times> effect list \<times> provisioning \<Rightarrow> response \<times> effect list \<Rightarrow> response \<times> effect list \<times> provisioning" where
  "afterEnsure ensured body =
     (case ensured of
        (Inl e, es, s') \<Rightarrow> (ServerError e, es, s')
      | (Inr u, es, s') \<Rightarrow> (fst body, es @ snd body, s'))"

definition postFinalIngest :: "config \<Rightarrow> services \<Rightarrow> provisioning \<Rightarrow> final_ingest_request \<Rightarrow> response \<times> effect list \<times> provisioning" where
  "postFinalIngest cfg svc s p =
     (let indexName = resolveIndexName cfg
            (case fin_indexName p of
               Some n \<Rightarrow> Some n
             | None \<Rightarrow> map_option IdStr (fin_videoFile p))
      in afterEnsure (ensureUnlessSkipped cfg svc s (fin_skipEnsure p) indexName)
                     (finalIngestBody cfg svc p indexName))"

subsection \<open>Action \<^verbatim>\<open>ingest\<close>\<close>

text \<open>
  \<^verbatim>\<open>frames.map\<close> with the check of \<^verbatim>\<open>embeddings[index]\<close>: a frame without an embedding
  throws, and the first throw ends the map.
\<close>

definition ingestVector :: "config \<Rightarrow> idval option \<Rightarrow> real list list \<Rightarrow> nat \<times> frame \<Rightarrow> error + vector" where
  "ingestVector cfg videoId embeddings entry =
     (case entry of (index, f) \<Rightarrow>
        if index < length embeddings
        then Inr \<lparr>v_id = frameVectorId cfg videoId f,
                  v_values = embeddings ! index,
                  v_metadata = frameMetadata videoId f\<rparr>
        else Inl (FrameEmbeddingFailed (frameId f)))"

definition ingestBody :: "config \<Rightarrow> services \<Rightarrow> ingest_request \<Rightarrow> string \<Rightarrow> response \<times> effect list" where
  "ingestBody cfg svc p indexName =
     (case ing_frames p of
        None \<Rightarrow> (BadRequest ''No frames provided for ingestion.'', [])
      | Some frames \<Rightarrow>
          if length frames = 0
          then (BadRequest ''No frames provided for ingestion.'', [])
          else
            (let videoId = ing_videoId p;
                 namespace = getNamespace cfg videoId;
                 (er, es1) = embedTexts cfg svc (descriptionsOf frames)
             in case er of
                  Inl e \<Rightarrow> (ServerError e, es1)
                | Inr embeddings \<Rightarrow>
                    (case promiseAll (map (ingestVector cfg videoId embeddings) (enumerate 0 frames)) of
                       Inl e \<Rightarrow> (ServerError e, es1)
                     | Inr vectors \<Rightarrow>
                         (case upsert svc indexName namespace vectors of
                            Throws msg \<Rightarrow>
                              (ServerError (ServiceError msg), es1 @ [Upsert indexName namespace vectors])
                          | Returns u \<Rightarrow>
                              (IngestOk (length vectors) namespace indexName,
                               es1 @ [Upsert indexName namespace vectors])))))"

definition postIngest :: "config \<Rightarrow> services \<Rightarrow> provisioning \<Rightarrow> ingest_request \<Rightarrow> response \<times> effect list \<times> provisioning" where
  "postIngest cfg svc s p =
     (let indexName = resolveIndexName cfg (ing_indexName p)
      in afterEnsure (ensureUnlessSkipped cfg svc s (ing_skipEnsure p) indexName)
                     (ingestBody cfg svc p indexName))"

subsection \<open>Action \<^verbatim>\<open>query\<close>\<close>

text \<open>\<^verbatim>\<open>!question\<close>: the question is missing or the empty string.\<close>

definition noQuestion :: "string option \<Rightarrow> bool" where
  "noQuestion question = (case question of None \<Rightarrow> True | Some t \<Rightarrow> t = [])"

definition topKOr :: "int option \<Rightarrow> int \<Rightarrow> int \<Rightarrow> int" where
  "topKOr topK dflt cap = min (case topK of None \<Rightarrow> dflt | Some k \<Rightarrow> k) cap"

definition queryBody :: "config \<Rightarrow> services \<Rightarrow> question_request \<Rightarrow> string \<Rightarrow> response \<times> effect list" where
  "queryBody cfg svc p indexName =
     (if noQuestion (q_question p)
      then (BadRequest ''Question is required for query.'', [])
      else
        (let question = (case q_question p of None \<Rightarrow> [] | Some t \<Rightarrow> t);
             namespace = getNamespace cfg (q_videoId p);
             (er, es1) = embedTexts cfg svc [question]
         in case er of
              Inl e \<Rightarrow> (ServerError e, es1)
            | Inr embeddings \<Rightarrow>
                (case firstVector embeddings of
                   None \<Rightarrow> (ServerError QueryEmbeddingFailed, es1)
                 | Some queryVector \<Rightarrow>
                     (let k = topKOr (q_topK p) 3 50;
                          es = es1 @ [QueryIndex indexName namespace queryVector k]
                      in case queryIndex svc indexName namespace queryVector k of
                           Throws msg \<Rightarrow> (ServerError (ServiceError msg), es)
                         | Returns matches \<Rightarrow>
                             (QueryOk (case matches of None \<Rightarrow> [] | Some ms \<Rightarrow> ms) indexName, es)))))"

definition postQuery :: "config \<Rightarrow> services \<Rightarrow> provisioning \<Rightarrow> question_request \<Rightarrow> response \<times> effect list \<times> provisioning" where
  "postQuery cfg svc s p =
     (let indexName = resolveIndexName cfg (q_indexName p)
      in afterEnsure (ensureUnlessSkipped cfg svc s (q_skipEnsure p) indexName)
                     (queryBody cfg svc p indexName))"

subsection \<open>Action \<^verbatim>\<open>analyze\<close>\<close>

text \<open>
  \<^verbatim>\<open>(m.metadata as any)?.timestamp ?? 0\<close> as the number the comparator subtracts. The
  ingest actions write numbers. For a timestamp that is there and is not a number,
  JavaScript coerces the operands of the subtraction and the order \<^verbatim>\<open>sort\<close> gives for
  a comparator that returns \<^verbatim>\<open>NaN\<close> is left to the implementation; the model reads 0 there,
  and the theorems on the order assume \<open>chronologicalInput\<close>.
\<close>

definition timestampOf :: "match \<Rightarrow> jsval" where
  "timestampOf m = (case m_metadata m of None \<Rightarrow> JUndefined | Some md \<Rightarrow> field md ''timestamp'')"

definition timestampOrZero :: "match \<Rightarrow> real" where
  "timestampOrZero m = (case orElse (timestampOf m) (JNum 0) of JNum r \<Rightarrow> r | v \<Rightarrow> 0)"

definition chronologicalInput :: "match list \<Rightarrow> bool" where
  "chronologicalInput matches =
     list_all (\<lambda>m. nullish (timestampOf m) \<or> isNumber (timestampOf m)) matches"

text \<open>
  \<^verbatim>\<open>[...matches].sort((a, b) => tsA - tsB)\<close>: \<^verbatim>\<open>Array.prototype.sort\<close> is stable, and for a
  comparator that is a difference of keys its result is the stable sort by the key.
\<close>

definition sortedMatches :: "match list \<Rightarrow> match list" where
  "sortedMatches matches = sort_key timestampOrZero matches"

definition citationOf :: "match \<Rightarrow> citation" where
  "citationOf m = \<lparr>c_id = m_id m, c_score = m_score m, c_metadata = m_metadata m\<rparr>"

definition joinLines :: "string list \<Rightarrow> string" where
  "joinLines parts =
     (case parts of [] \<Rightarrow> [] | p # ps \<Rightarrow> p @ concat (map (\<lambda>t. CHR 0x0A # t) ps))"

text \<open>
  \<^verbatim>\<open>resp?.response?.text?.() ?? resp?.response?.candidates?.[0]?.content?.parts?.map(...).join("\n") ?? ""\<close>.
  The response object may be missing; a \<^verbatim>\<open>text\<close> method that throws leaves through the
  outer \<^verbatim>\<open>catch\<close>.
\<close>

definition extractAnswer :: "generation_response option \<Rightarrow> error + string" where
  "extractAnswer resp =
     (case resp of
        None \<Rightarrow> Inr []
      | Some r \<Rightarrow>
          (case text_method r of
             Some (Throws msg) \<Rightarrow> Inl (ServiceError msg)
           | Some (Returns (Some t)) \<Rightarrow> Inr t
           | other \<Rightarrow>
               (case first_candidate_parts r of
                  Some parts \<Rightarrow> Inr (joinLines (map (\<lambda>p. case p of None \<Rightarrow> [] | Some t \<Rightarrow> t) parts))
                | None \<Rightarrow> Inr [])))"

text \<open>
  A response without usable text, read without an exception: no response object, an
  empty text from the \<^verbatim>\<open>text\<close> method (what the client library returns for a response
  without candidates), or no text from the method and no parts in the first candidate.
  A response whose \<^verbatim>\<open>text\<close> method throws (what the client library does for a blocked
  response) is not among them: \<open>extractAnswer\<close> gives the error for it, and the handler
  answers with status 500.
\<close>

definition noUsableText :: "generation_response option \<Rightarrow> bool" where
  "noUsableText resp =
     (case resp of
        None \<Rightarrow> True
      | Some r \<Rightarrow> text_method r = Some (Returns (Some []))
                  \<or> ((text_method r = None \<or> text_method r = Some (Returns None))
                      \<and> first_candidate_parts r = None))"

definition generateStep :: "config \<Rightarrow> services \<Rightarrow> string \<Rightarrow> match list \<Rightarrow> string \<Rightarrow> effect list \<Rightarrow> response \<times> effect list" where
  "generateStep cfg svc question ordered indexName es =
     (if \<not> hasGeminiClient cfg then (ServerError MissingGeminiClient, es)
      else case generateContent svc question ordered of
             Throws msg \<Rightarrow> (ServerError (ServiceError msg), es @ [GenerateContent question ordered])
           | Returns resp \<Rightarrow>
               (case extractAnswer resp of
                  Inl e \<Rightarrow> (ServerError e, es @ [GenerateContent question ordered])
                | Inr answer \<Rightarrow>
                    (AnalyzeOk answer (map citationOf ordered) indexName,
                     es @ [GenerateContent question ordered])))"

definition analyzeBody :: "config \<Rightarrow> services \<Rightarrow> question_request \<Rightarrow> string \<Rightarrow> response \<times> effect list" where
  "analyzeBody cfg svc p indexName =
     (if noQuestion (q_question p)
      then (BadRequest ''Question is required for analyze.'', [])
      else
        (let question = (case q_question p of None \<Rightarrow> [] | Some t \<Rightarrow> t);
             namespace = getNamespace cfg (q_videoId p);
             (er, es1) = embedTexts cfg svc [question]
         in case er of
              Inl e \<Rightarrow> (ServerError e, es1)
            | Inr embeddings \<Rightarrow>
                (let queryVector = (case firstVector embeddings of None \<Rightarrow> [] | Some v \<Rightarrow> v);
                     top = topKOr (q_topK p) 10 50;
                     es = es1 @ [QueryIndex indexName namespace queryVector top]
                 in case queryIndex svc indexName namespace queryVector top of
                      Throws msg \<Rightarrow> (ServerError (ServiceError msg), es)
                    | Returns result \<Rightarrow>
                        (let matches = (case result of None \<Rightarrow> [] | Some ms \<Rightarrow> ms)
                         in generateStep cfg svc question (sortedMatches matches) indexName es))))"

definition postAnalyze :: "config \<Rightarrow> services \<Rightarrow> provisioning \<Rightarrow> question_request \<Rightarrow> response \<times> effect list \<times> provisioning" where
  "postAnalyze cfg svc s p =
     (let indexName = resolveIndexName cfg (q_indexName p)
      in afterEnsure (ensureUnlessSkipped cfg svc s (q_skipEnsure p) indexName)
                     (analyzeBody cfg svc p indexName))"

subsection \<open>Action \<^verbatim>\<open>overview\<close>\<close>

text \<open>
  The summary, fetched inside a \<^verbatim>\<open>try\<close> with an empty \<^verbatim>\<open>catch\<close>:
  \<^verbatim>\<open>rec?.metadata?.text ?? rec?.metadata?.summary ?? undefined\<close>.
\<close>

definition fetchSummary :: "services \<Rightarrow> string \<Rightarrow> string \<Rightarrow> jsval" where
  "fetchSummary svc indexName namespace =
     (case fetchRecords svc indexName namespace (namespace @ ''::summary'') of
        Throws msg \<Rightarrow> JUndefined
      | Returns None \<Rightarrow> JUndefined
      | Returns (Some md) \<Rightarrow> orElse (orElse (field md ''text'') (field md ''summary'')) JUndefined)"

definition metadataField :: "match \<Rightarrow> string \<Rightarrow> jsval" where
  "metadataField m k = (case m_metadata m of None \<Rightarrow> JUndefined | Some md \<Rightarrow> field md k)"

definition overviewFrameOf :: "match \<Rightarrow> overview_frame" where
  "overviewFrameOf m =
     \<lparr>o_id = m_id m,
      o_score = m_score m,
      o_frame_id = metadataField m ''frame_id'',
      o_timestamp = metadataField m ''timestamp'',
      o_description = metadataField m ''description'',
      o_path = metadataField m ''path''\<rparr>"

text \<open>The number under \<^verbatim>\<open>f.timestamp as number\<close>; the filter lets only numbers through.\<close>

definition overviewTime :: "overview_frame \<Rightarrow> real" where
  "overviewTime f = (case o_timestamp f of JNum r \<Rightarrow> r | v \<Rightarrow> 0)"

definition overviewFrames :: "match list \<Rightarrow> overview_frame list" where
  "overviewFrames matches =
     sort_key overviewTime
       (filter (\<lambda>f. isNumber (o_timestamp f)) (map overviewFrameOf matches))"

definition overviewBody :: "config \<Rightarrow> services \<Rightarrow> overview_request \<Rightarrow> string \<Rightarrow> response \<times> effect list" where
  "overviewBody cfg svc p indexName =
     (let namespace = getNamespace cfg (ov_videoId p);
          summary = fetchSummary svc indexName namespace;
          es0 = [FetchRecords indexName namespace [namespace @ ''::summary'']];
          (er, es1) = embedTexts cfg svc [''overview of this video frames'']
      in case er of
           Inl e \<Rightarrow> (ServerError e, es0 @ es1)
         | Inr embeddings \<Rightarrow>
             (let vec = (case firstVector embeddings of None \<Rightarrow> [] | Some v \<Rightarrow> v);
                  k = topKOr (ov_topK p) 200 1000;
                  es = es0 @ es1 @ [QueryIndex indexName namespace vec k]
              in case queryIndex svc indexName namespace vec k of
                   Throws msg \<Rightarrow> (ServerError (ServiceError msg), es)
                 | Returns result \<Rightarrow>
                     (OverviewOk summary
                        (overviewFrames (case result of None \<Rightarrow> [] | Some ms \<Rightarrow> ms))
                        indexName namespace, es)))"

definition postOverview :: "config \<Rightarrow> services \<Rightarrow> provisioning \<Rightarrow> overview_request \<Rightarrow> response \<times> effect list \<times> provisioning" where
  "postOverview cfg svc s p =
     (let indexName = resolveIndexName cfg (ov_indexName p)
      in afterEnsure (ensureUnlessSkipped cfg svc s (ov_skipEnsure p) indexName)
                     (overviewBody cfg svc p indexName))"

subsection \<open>The handler\<close>

definition POST :: "config \<Rightarrow> services \<Rightarrow> provisioning \<Rightarrow> payload \<Rightarrow> response \<times> effect list \<times> provisioning" where
  "POST cfg svc s payload =
     (case requireClients cfg of
        Some e \<Rightarrow> (ServerError e, [], s)
      | None \<Rightarrow>
          (case payload of
             FinalIngest p \<Rightarrow> postFinalIngest cfg svc s p
           | Ingest p \<Rightarrow> postIngest cfg svc s p
           | Query p \<Rightarrow> postQuery cfg svc s p
           | Analyze p \<Rightarrow> postAnalyze cfg svc s p
           | Overview p \<Rightarrow> postOverview cfg svc s p
           | OtherAction \<Rightarrow> (BadRequest ''Unsupported action requested.'', [], s)))"

section \<open>Example environment\<close>

text \<open>A configuration with both keys set and no index name in the environment.\<close>

definition exampleConfig :: config where
  "exampleConfig = \<lparr>PINECONE_INDEX = None, PINECONE_API_KEY = Some ''pk'', GOOGLE_API_KEY = Some ''gk''\<rparr>"

text \<open>
  Matches as the store returns them: frame records with a timestamp, and the manifest
  record of a video, which has none.
\<close>

definition frameMatch :: "string \<Rightarrow> real \<Rightarrow> match" where
  "frameMatch ident t =
     \<lparr>m_id = ident, m_score = Some 1, m_values = [],
      m_metadata = Some [(''frame_id'', JStr ident), (''timestamp'', JNum t)]\<rparr>"

definition manifestMatch :: match where
  "manifestMatch =
     \<lparr>m_id = ''video-1::manifest'', m_score = Some 1, m_values = [],
      m_metadata = Some [(''video_id'', JStr ''1''), (''manifest'', JBool True),
                         (''count'', JNum 3), (''first_timestamp'', JNum 1),
                         (''last_timestamp'', JNum 5)]\<rparr>"

definition exampleMatches :: "match list" where
  "exampleMatches = [frameMatch ''c'' 5, frameMatch ''a'' 1, manifestMatch, frameMatch ''b'' 3]"

text \<open>
  A world in which the index \<^verbatim>\<open>video-frames\<close> exists and is ready, no other index can be
  created, the embedding service returns a vector of two numbers for every text but the
  empty one and one manifest text, the summary cannot be fetched, and the generation
  service answers without text.
\<close>

definition exampleServices :: services where
  "exampleServices =
     \<lparr>listIndexes = Returns (ListingArray [ItemString ''video-frames'']),
      createIndex = (\<lambda>name. Throws ''quota''),
      describeIndex = (\<lambda>name attempt. Returns \<lparr>status_ready = Some True, status_state = None\<rparr>),
      embedContent = (\<lambda>t. if t = [] then Returns None
                           else if t = ''manifest video 9'' then Throws ''unavailable''
                           else Returns (Some [1, 2])),
      upsert = (\<lambda>indexName namespace vectors. Returns ()),
      queryIndex = (\<lambda>indexName namespace vec k. Returns (Some exampleMatches)),
      fetchRecords = (\<lambda>indexName namespace ident. Throws ''unavailable''),
      generateContent = (\<lambda>question ordered.
                           Returns (Some \<lparr>text_method = Some (Returns (Some [])),
                                           first_candidate_parts = None\<rparr>))\<rparr>"

text \<open>
  The same services with a generation call of a chosen outcome, and an analyze request
  that reaches the generation step with them.
\<close>

definition exampleAnswering :: "generation_response option outcome \<Rightarrow> services" where
  "exampleAnswering out = exampleServices\<lparr>generateContent := (\<lambda>question ordered. out)\<rparr>"

definition exampleQuestion :: question_request where
  "exampleQuestion =
     \<lparr>q_indexName = None, q_videoId = Some (IdNum 1), q_question = Some ''what happens?'',
      q_topK = None, q_skipEnsure = True\<rparr>"

text \<open>A final ingestion of two frames, for a video identifier and a summary.\<close>

definition exampleFrames :: "frame list" where
  "exampleFrames =
     [\<lparr>frameId = IdNum 0, timestamp = 0, description = Some ''a car'', path = ''frame_000.png''\<rparr>,
      \<lparr>frameId = IdNum 1, timestamp = 2, description = Some ''a crash'', path = ''frame_001.png''\<rparr>]"

definition exampleFinalIngest :: "int \<Rightarrow> string option \<Rightarrow> final_ingest_request" where
  "exampleFinalIngest vid summary =
     \<lparr>fin_indexName = None, fin_videoFile = None, fin_videoId = Some (IdNum vid),
      fin_videoFilename = None, fin_summary = summary, fin_skipEnsure = True,
      fin_records = None, fin_frames = Some exampleFrames\<rparr>"

section \<open>Name sanitisation\<close>

lemma replaceRuns_set:
  "set (replaceRuns P rep s) \<subseteq> {c \<in> set s. \<not> P c} \<union> set rep"
  by (induction P rep s rule: replaceRuns.induct) (auto dest: set_dropWhileD)

lemma dropWhile_hd_or_empty:
  "dropWhile P xs = [] \<or> \<not> P (hd (dropWhile P xs))"
  by (metis hd_dropWhile)

lemma filter_dropWhile_disjoint:
  "(\<And>c. P c \<Longrightarrow> \<not> Q c) \<Longrightarrow> filter Q (dropWhile P xs) = filter Q xs"
  by (induction xs) auto

lemma filter_replaceRuns:
  "(\<forall>c. P c \<longrightarrow> \<not> Q c) \<Longrightarrow> (\<forall>c \<in> set rep. \<not> Q c) \<Longrightarrow>
   filter Q (replaceRuns P rep s) = filter Q s"
proof (induction P rep s rule: replaceRuns.induct)
  case (1 P rep)
  then show ?case by simp
next
  case (2 P rep c cs)
  have rep: "filter Q rep = []"
    using 2(4) by (simp add: filter_empty_conv)
  show ?case
  proof (cases "P c")
    case True
    then have "filter Q (replaceRuns P rep (dropWhile P cs)) = filter Q (dropWhile P cs)"
      using 2 by simp
    also have "\<dots> = filter Q cs"
      using 2(3) by (simp add: filter_dropWhile_disjoint)
    finally show ?thesis using True rep 2(3) by simp
  next
    case False
    then show ?thesis using 2 by simp
  qed
qed

lemma replaceRuns_after_drop:
  "replaceRuns isDash rep (dropWhile isDash cs) = []
   \<or> hd (replaceRuns isDash rep (dropWhile isDash cs)) \<noteq> CHR ''-''"
proof -
  define d where "d = dropWhile isDash cs"
  have "d = [] \<or> \<not> isDash (hd d)"
    unfolding d_def by (rule dropWhile_hd_or_empty)
  then have "replaceRuns isDash rep d = [] \<or> hd (replaceRuns isDash rep d) \<noteq> CHR ''-''"
    by (cases d) (auto simp: isDash_def)
  then show ?thesis by (simp add: d_def)
qed

lemma validChar_dash: "validChar (CHR ''-'')"
  by (simp add: validChar_def)

lemma no_double_dash_collapse:
  "\<not> (\<exists>u v. replaceRuns isDash ''-'' s = u @ ''--'' @ v)"
proof (induction "isDash" "''-''" s rule: replaceRuns.induct)
  case 1
  then show ?case by simp
next
  case (2 c cs)
  show ?case
  proof (cases "isDash c")
    case True
    let ?r = "replaceRuns isDash ''-'' (dropWhile isDash cs)"
    have hd: "?r = [] \<or> hd ?r \<noteq> CHR ''-''"
      by (rule replaceRuns_after_drop)
    have ih: "\<not> (\<exists>u v. ?r = u @ ''--'' @ v)" using 2(1) True by simp
    show ?thesis
    proof
      assume "\<exists>u v. replaceRuns isDash ''-'' (c # cs) = u @ ''--'' @ v"
      then obtain u v where uv: "CHR ''-'' # ?r = u @ ''--'' @ v" using True by auto
      show False
      proof (cases u)
        case Nil
        then have "?r = CHR ''-'' # v" using uv by simp
        then show False using hd by auto
      next
        case (Cons a u')
        then have "?r = u' @ ''--'' @ v" using uv by auto
        then show False using ih by blast
      qed
    qed
  next
    case False
    have ih: "\<not> (\<exists>u v. replaceRuns isDash ''-'' cs = u @ ''--'' @ v)" using 2(2) False by simp
    show ?thesis
    proof
      assume "\<exists>u v. replaceRuns isDash ''-'' (c # cs) = u @ ''--'' @ v"
      then obtain u v where uv: "c # replaceRuns isDash ''-'' cs = u @ ''--'' @ v"
        using False by auto
      show False
      proof (cases u)
        case Nil
        then have "c = CHR ''-''" using uv by simp
        then show False using False by (simp add: isDash_def)
      next
        case (Cons a u')
        then have "replaceRuns isDash ''-'' cs = u' @ ''--'' @ v" using uv by auto
        then show False using ih by blast
      qed
    qed
  qed
qed

lemma no_double_dash_trimDashes:
  assumes "\<not> (\<exists>u v. s = u @ ''--'' @ v)"
  shows "\<not> (\<exists>u v. trimDashes s = u @ ''--'' @ v)"
proof
  assume "\<exists>u v. trimDashes s = u @ ''--'' @ v"
  then obtain u v where uv: "trimDashes s = u @ ''--'' @ v" by blast
  let ?a = "dropWhile isDash s"
  have "rev ?a = takeWhile isDash (rev ?a) @ dropWhile isDash (rev ?a)" by simp
  then have "?a = rev (dropWhile isDash (rev ?a)) @ rev (takeWhile isDash (rev ?a))"
    by (metis rev_append rev_rev_ident)
  then have a: "?a = u @ ''--'' @ (v @ rev (takeWhile isDash (rev ?a)))"
    using uv by (simp add: trimDashes_def)
  have "s = takeWhile isDash s @ ?a" by simp
  then have "s = (takeWhile isDash s @ u) @ ''--'' @ (v @ rev (takeWhile isDash (rev ?a)))"
    using a by (metis append.assoc)
  then show False using assms by blast
qed

lemma trimDashes_set: "set (trimDashes s) \<subseteq> set s"
proof
  fix c
  assume "c \<in> set (trimDashes s)"
  then have "c \<in> set (dropWhile isDash (rev (dropWhile isDash s)))"
    by (simp add: trimDashes_def)
  then have "c \<in> set (rev (dropWhile isDash s))" by (rule set_dropWhileD)
  then have "c \<in> set (dropWhile isDash s)" by simp
  then show "c \<in> set s" by (rule set_dropWhileD)
qed

lemma trimDashes_ends:
  assumes "trimDashes s \<noteq> []"
  shows "hd (trimDashes s) \<noteq> CHR ''-'' \<and> last (trimDashes s) \<noteq> CHR ''-''"
proof -
  let ?a = "dropWhile isDash s"
  let ?b = "dropWhile isDash (rev ?a)"
  have b: "?b \<noteq> []" using assms by (simp add: trimDashes_def)
  then have a: "?a \<noteq> []" by (metis dropWhile.simps(1) rev.simps(1))
  have "\<not> isDash (hd ?b)" using b by (metis hd_dropWhile)
  then have l: "last (trimDashes s) \<noteq> CHR ''-''"
    using b by (simp add: trimDashes_def last_rev isDash_def)
  have nd: "\<not> isDash (hd ?a)" using a by (metis hd_dropWhile)
  have "rev ?a = takeWhile isDash (rev ?a) @ ?b" by simp
  then have "last (rev ?a) = last ?b" using b by (metis last_appendR)
  then have "hd ?a = last ?b" using a by (simp add: last_rev)
  then have "hd (trimDashes s) = hd ?a" using b by (simp add: trimDashes_def hd_rev)
  then show ?thesis using l nd by (simp add: isDash_def)
qed

lemma filter_trimDashes:
  "\<not> Q (CHR ''-'') \<Longrightarrow> filter Q (trimDashes s) = filter Q s"
proof -
  assume q: "\<not> Q (CHR ''-'')"
  have d: "\<And>xs. filter Q (dropWhile isDash xs) = filter Q xs"
    using q by (intro filter_dropWhile_disjoint) (auto simp: isDash_def)
  show ?thesis
    by (simp add: trimDashes_def d flip: rev_filter)
qed

lemma replaceRuns_dash_valid:
  assumes "\<forall>c \<in> set s. P c \<or> validChar c"
  shows "\<forall>c \<in> set (replaceRuns P ''-'' s). validChar c"
proof
  fix c
  assume "c \<in> set (replaceRuns P ''-'' s)"
  then have "c \<in> {c \<in> set s. \<not> P c} \<union> set ''-''"
    using replaceRuns_set [of P "''-''" s] by blast
  then show "validChar c"
    using assms validChar_dash by auto
qed

lemma trimmedOf_valid: "\<forall>c \<in> set (trimmedOf s). validChar c"
proof -
  let ?r = "replaceRuns (\<lambda>c. \<not> validChar c) ''-'' (toLowerCase s)"
  have r: "\<forall>c \<in> set ?r. validChar c"
    by (rule replaceRuns_dash_valid) simp
  then have "\<forall>c \<in> set (replaceRuns isDash ''-'' ?r). validChar c"
    by (intro replaceRuns_dash_valid) simp
  then show ?thesis
    using trimDashes_set [of "replaceRuns isDash ''-'' ?r"]
    unfolding trimmedOf_def Let_def by blast
qed

lemma trimmedOf_no_double_dash: "\<not> (\<exists>u v. trimmedOf s = u @ ''--'' @ v)"
  unfolding trimmedOf_def Let_def
  by (rule no_double_dash_trimDashes) (rule no_double_dash_collapse)

lemma trimmedOf_ends:
  "trimmedOf s \<noteq> [] \<Longrightarrow> hd (trimmedOf s) \<noteq> CHR ''-'' \<and> last (trimmedOf s) \<noteq> CHR ''-''"
  unfolding trimmedOf_def Let_def by (rule trimDashes_ends)

lemma trimmedOf_content:
  "filter alnumChar (trimmedOf s) = filter alnumChar (toLowerCase s)"
proof -
  have nd: "\<not> alnumChar (CHR ''-'')" by (simp add: alnumChar_def isDash_def)
  have 1: "filter alnumChar (replaceRuns (\<lambda>c. \<not> validChar c) ''-'' (toLowerCase s))
             = filter alnumChar (toLowerCase s)"
    by (rule filter_replaceRuns) (auto simp: alnumChar_def isDash_def)
  have 2: "\<And>r. filter alnumChar (replaceRuns isDash ''-'' r) = filter alnumChar r"
    by (rule filter_replaceRuns) (auto simp: alnumChar_def isDash_def)
  show ?thesis
    by (simp add: trimmedOf_def Let_def filter_trimDashes [of alnumChar, OF nd] 1 2)
qed

lemma sanitize_example:
  "sanitizeIndexName cfg (Some (IdStr ''My Video!!.mp4'')) = ''my-video-mp4''"
  by (simp add: sanitizeIndexName_def trimmedOf_def candidateOf_def toLowerCase_def
        toLowerCase_char_def validChar_def isDash_def trimDashes_def)

lemma dropWhile_dropWhile_weaker:
  "(\<And>x. P x \<Longrightarrow> Q x) \<Longrightarrow> dropWhile Q (dropWhile P xs) = dropWhile Q xs"
  by (induction xs) auto

lemma replace_invalid_drop:
  "dropWhile isDash (replaceRuns (\<lambda>c. \<not> validChar c) ''-'' cs)
   = replaceRuns (\<lambda>c. \<not> validChar c) ''-'' (dropWhile (\<lambda>c. \<not> alnumChar c) cs)"
proof (induction "\<lambda>c. \<not> validChar c" "''-''" cs rule: replaceRuns.induct)
  case 1
  then show ?case by simp
next
  case (2 c cs)
  show ?case
  proof (cases "validChar c")
    case False
    have w: "dropWhile (\<lambda>c. \<not> alnumChar c) (dropWhile (\<lambda>c. \<not> validChar c) cs)
             = dropWhile (\<lambda>c. \<not> alnumChar c) cs"
      by (rule dropWhile_dropWhile_weaker) (simp add: alnumChar_def)
    show ?thesis using False 2(1) w by (simp add: isDash_def alnumChar_def)
  next
    case True
    then show ?thesis using 2(2) by (simp add: alnumChar_def)
  qed
qed

lemma collapse_replace:
  "replaceRuns isDash ''-'' (replaceRuns (\<lambda>c. \<not> validChar c) ''-'' s)
   = replaceRuns (\<lambda>c. \<not> alnumChar c) ''-'' s"
proof (induction "\<lambda>c. \<not> alnumChar c" "''-''" s rule: replaceRuns.induct)
  case 1
  then show ?case by simp
next
  case (2 c cs)
  show ?case
  proof (cases "alnumChar c")
    case True
    then show ?thesis using 2(2) by (simp add: alnumChar_def)
  next
    case False
    have w: "dropWhile (\<lambda>c. \<not> alnumChar c) (dropWhile (\<lambda>c. \<not> validChar c) cs)
             = dropWhile (\<lambda>c. \<not> alnumChar c) cs"
      by (rule dropWhile_dropWhile_weaker) (simp add: alnumChar_def)
    show ?thesis
    proof (cases "validChar c")
      case True
      then have d: "isDash c" using False by (simp add: alnumChar_def)
      show ?thesis
        using True d False 2(1) by (simp add: replace_invalid_drop isDash_def)
    next
      case v: False
      show ?thesis
        using v False 2(1) by (simp add: replace_invalid_drop w isDash_def)
    qed
  qed
qed

lemma replace_head_alnum:
  "s = [] \<or> alnumChar (hd s) \<Longrightarrow>
   dropWhile isDash (replaceRuns (\<lambda>c. \<not> alnumChar c) ''-'' s) = replaceRuns (\<lambda>c. \<not> alnumChar c) ''-'' s"
  by (cases s) (auto simp: alnumChar_def)

lemma strip_leading:
  "dropWhile isDash (replaceRuns (\<lambda>c. \<not> alnumChar c) ''-'' s)
   = replaceRuns (\<lambda>c. \<not> alnumChar c) ''-'' (dropWhile (\<lambda>c. \<not> alnumChar c) s)"
proof (cases s)
  case Nil
  then show ?thesis by simp
next
  case (Cons c cs)
  show ?thesis
  proof (cases "alnumChar c")
    case True
    then show ?thesis using Cons by (simp add: alnumChar_def)
  next
    case False
    have "dropWhile (\<lambda>c. \<not> alnumChar c) cs = [] \<or> alnumChar (hd (dropWhile (\<lambda>c. \<not> alnumChar c) cs))"
      using dropWhile_hd_or_empty [of "\<lambda>c. \<not> alnumChar c" cs] by simp
    from replace_head_alnum [OF this] show ?thesis
      using False Cons by (simp add: isDash_def)
  qed
qed

lemma alnumRuns_skip: "alnumRuns (dropWhile (\<lambda>c. \<not> alnumChar c) s) = alnumRuns s"
  by (induction s) auto

lemma replace_keeps_alnum:
  "\<forall>c \<in> set w. alnumChar c \<Longrightarrow>
   replaceRuns (\<lambda>c. \<not> alnumChar c) ''-'' (w @ r) = w @ replaceRuns (\<lambda>c. \<not> alnumChar c) ''-'' r"
  by (induction w) auto

lemma strip_trailing_keep:
  "a \<noteq> [] \<Longrightarrow> \<not> isDash (last a) \<Longrightarrow> rev (dropWhile isDash (rev a)) = a"
  by (cases a rule: rev_cases) auto

lemma strip_trailing_append:
  "rev (dropWhile isDash (rev x)) \<noteq> [] \<Longrightarrow>
   rev (dropWhile isDash (rev (a @ x))) = a @ rev (dropWhile isDash (rev x))"
  by (auto simp: dropWhile_append)

lemma joinDashes_Cons:
  "ws \<noteq> [] \<Longrightarrow> joinDashes (w # ws) = w @ ''-'' @ joinDashes ws"
  by (cases ws) auto

lemma joinDashes_nonempty:
  "ws \<noteq> [] \<Longrightarrow> [] \<notin> set ws \<Longrightarrow> joinDashes ws \<noteq> []"
  by (induction ws rule: joinDashes.induct) auto

lemma alnumRuns_words: "[] \<notin> set (alnumRuns s)"
  by (induction s rule: alnumRuns.induct) auto

lemma strip_trailing_runs:
  "s = [] \<or> alnumChar (hd s) \<Longrightarrow>
   rev (dropWhile isDash (rev (replaceRuns (\<lambda>c. \<not> alnumChar c) ''-'' s))) = joinDashes (alnumRuns s)"
proof (induction s rule: length_induct)
  case (1 s)
  show ?case
  proof (cases s)
    case Nil
    then show ?thesis by simp
  next
    case (Cons c cs)
    then have c: "alnumChar c" using 1(2) by simp
    let ?R = "replaceRuns (\<lambda>c. \<not> alnumChar c) ''-''"
    let ?w = "c # takeWhile alnumChar cs"
    let ?r = "dropWhile alnumChar cs"
    have s: "s = ?w @ ?r" using Cons by simp
    have wa: "\<forall>x \<in> set ?w. alnumChar x" using c by (auto dest: set_takeWhileD)
    have Rs: "?R s = ?w @ ?R ?r"
      using replace_keeps_alnum [OF wa, of ?r] s by simp
    have lw: "\<not> isDash (last ?w)"
      using wa by (metis alnumChar_def last_in_set list.distinct(1))
    have runs: "alnumRuns s = ?w # alnumRuns ?r" using Cons c by simp
    show ?thesis
    proof (cases ?r)
      case Nil
      have "?R s = ?w" using Rs unfolding Nil by simp
      moreover have "alnumRuns s = [?w]" using runs unfolding Nil by simp
      moreover have "rev (dropWhile isDash (rev ?w)) = ?w"
        using lw by (intro strip_trailing_keep) simp_all
      ultimately show ?thesis by (simp only: joinDashes.simps)
    next
      case r: (Cons d ds)
      have d: "\<not> alnumChar d" using r by (metis hd_dropWhile list.sel(1) list.distinct(1))
      let ?r' = "dropWhile (\<lambda>c. \<not> alnumChar c) ds"
      have Rr: "?R ?r = ''-'' @ ?R ?r'" using r d by simp
      have runs': "alnumRuns ?r = alnumRuns ?r'" using r d by (simp add: alnumRuns_skip)
      have len: "length ?r' < length s"
      proof -
        have "length ?r' \<le> length ds" by (rule length_dropWhile_le)
        also have "\<dots> < length ?r" using r by simp
        also have "\<dots> \<le> length cs" by (rule length_dropWhile_le)
        finally show ?thesis using Cons by simp
      qed
      have hd': "?r' = [] \<or> alnumChar (hd ?r')"
        using dropWhile_hd_or_empty [of "\<lambda>c. \<not> alnumChar c" ds] by simp
      have ih: "rev (dropWhile isDash (rev (?R ?r'))) = joinDashes (alnumRuns ?r')"
        using 1(1) len hd' by blast
      show ?thesis
      proof (cases ?r')
        case Nil
        have "rev (dropWhile isDash (rev (?w @ ''-''))) = ?w"
          using lw strip_trailing_keep [of ?w] by (simp add: isDash_def)
        then show ?thesis using Rs Rr runs runs' Nil by simp
      next
        case r': (Cons x xs)
        then have "alnumChar x" using hd' by simp
        then have ne: "alnumRuns ?r' \<noteq> []" using r' by simp
        then have "joinDashes (alnumRuns ?r') \<noteq> []"
          using joinDashes_nonempty alnumRuns_words by blast
        then have st: "rev (dropWhile isDash (rev (?R ?r'))) \<noteq> []" using ih by simp
        have "rev (dropWhile isDash (rev ((?w @ ''-'') @ ?R ?r')))
                = (?w @ ''-'') @ rev (dropWhile isDash (rev (?R ?r')))"
          using st by (rule strip_trailing_append)
        then have "rev (dropWhile isDash (rev (?R s))) = ?w @ ''-'' @ joinDashes (alnumRuns ?r')"
          using Rs Rr ih by simp
        then show ?thesis using runs runs' ne by (simp add: joinDashes_Cons)
      qed
    qed
  qed
qed

lemma trimmedOf_runs: "trimmedOf s = joinDashes (alnumRuns (toLowerCase s))"
proof -
  let ?l = "toLowerCase s"
  let ?R = "replaceRuns (\<lambda>c. \<not> alnumChar c) ''-''"
  have "trimmedOf s = rev (dropWhile isDash (rev (dropWhile isDash (?R ?l))))"
    by (simp add: trimmedOf_def Let_def collapse_replace trimDashes_def)
  also have "\<dots> = rev (dropWhile isDash (rev (?R (dropWhile (\<lambda>c. \<not> alnumChar c) ?l))))"
    by (simp add: strip_leading)
  also have "\<dots> = joinDashes (alnumRuns (dropWhile (\<lambda>c. \<not> alnumChar c) ?l))"
    using dropWhile_hd_or_empty [of "\<lambda>c. \<not> alnumChar c" ?l] by (intro strip_trailing_runs) simp
  also have "\<dots> = joinDashes (alnumRuns ?l)"
    by (simp add: alnumRuns_skip)
  finally show ?thesis .
qed

text \<open>
  Claim C9. Sanitising a raw index name lower-cases it, replaces each run of characters
  outside \<^verbatim>\<open>[a-z0-9-]\<close> by one dash, collapses runs of dashes, trims the dashes at both
  ends, falls back to the default name when nothing is left and keeps at most 45
  characters. So what is left before the fall-back has only characters of the class, no
  two dashes in a row, no dash at either end, and the letters and digits of the
  lower-cased name in their order: it is the runs of letters and digits of the
  lower-cased name, joined by single dashes. \<^verbatim>\<open>"My Video!!.mp4"\<close> gives \<^verbatim>\<open>"my-video-mp4"\<close>.
\<close>

theorem sanitizeIndexName_steps:
  "sanitizeIndexName cfg raw =
     take 45 (if trimmedOf (candidateOf cfg raw) = [] then DEFAULT_INDEX_NAME cfg
              else trimmedOf (candidateOf cfg raw))
   \<and> length (sanitizeIndexName cfg raw) \<le> 45
   \<and> (\<forall>c \<in> set (trimmedOf (candidateOf cfg raw)). validChar c)
   \<and> \<not> (\<exists>u v. trimmedOf (candidateOf cfg raw) = u @ ''--'' @ v)
   \<and> (trimmedOf (candidateOf cfg raw) \<noteq> [] \<longrightarrow>
        hd (trimmedOf (candidateOf cfg raw)) \<noteq> CHR ''-''
        \<and> last (trimmedOf (candidateOf cfg raw)) \<noteq> CHR ''-'')
   \<and> filter alnumChar (trimmedOf (candidateOf cfg raw)) =
       filter alnumChar (toLowerCase (candidateOf cfg raw))
   \<and> trimmedOf (candidateOf cfg raw) = joinDashes (alnumRuns (toLowerCase (candidateOf cfg raw)))
   \<and> sanitizeIndexName cfg (Some (IdStr ''My Video!!.mp4'')) = ''my-video-mp4''"
proof -
  have 1: "sanitizeIndexName cfg raw =
     take 45 (if trimmedOf (candidateOf cfg raw) = [] then DEFAULT_INDEX_NAME cfg
              else trimmedOf (candidateOf cfg raw))"
    by (simp add: sanitizeIndexName_def Let_def)
  have 2: "length (sanitizeIndexName cfg raw) \<le> 45"
    by (simp add: sanitizeIndexName_def Let_def)
  show ?thesis
    using 1 2 trimmedOf_valid [of "candidateOf cfg raw"]
      trimmedOf_no_double_dash [of "candidateOf cfg raw"]
      trimmedOf_ends [of "candidateOf cfg raw"]
      trimmedOf_content [of "candidateOf cfg raw"]
      trimmedOf_runs [of "candidateOf cfg raw"]
      sanitize_example [of cfg]
    by blast
qed

theorem sanitizeIndexName_steps_witness:
  "trimmedOf (candidateOf exampleConfig (Some (IdStr ''--My  Video--''))) \<noteq> []
   \<and> hd (trimmedOf (candidateOf exampleConfig (Some (IdStr ''--My  Video--'')))) \<noteq> CHR ''-''
   \<and> last (trimmedOf (candidateOf exampleConfig (Some (IdStr ''--My  Video--'')))) \<noteq> CHR ''-''
   \<and> sanitizeIndexName exampleConfig (Some (IdStr ''--My  Video--'')) = ''my-video''"
proof -
  have t: "trimmedOf (candidateOf exampleConfig (Some (IdStr ''--My  Video--''))) = ''my-video''"
    by (simp add: trimmedOf_def candidateOf_def toLowerCase_def
          toLowerCase_char_def validChar_def isDash_def trimDashes_def)
  then have ne: "trimmedOf (candidateOf exampleConfig (Some (IdStr ''--My  Video--''))) \<noteq> []"
    by simp
  have s: "sanitizeIndexName exampleConfig (Some (IdStr ''--My  Video--'')) = ''my-video''"
    using t by (simp add: sanitizeIndexName_def)
  have "trimmedOf (candidateOf exampleConfig (Some (IdStr ''--My  Video--''))) \<noteq> [] \<longrightarrow>
        hd (trimmedOf (candidateOf exampleConfig (Some (IdStr ''--My  Video--'')))) \<noteq> CHR ''-''
        \<and> last (trimmedOf (candidateOf exampleConfig (Some (IdStr ''--My  Video--'')))) \<noteq> CHR ''-''"
    using sanitizeIndexName_steps [of exampleConfig "Some (IdStr ''--My  Video--'')"] by blast
  then show ?thesis using ne s by blast
qed

text \<open>
  Claim C8, as the code has it. Without a video identifier the namespace is
  \<^verbatim>\<open>"frames"\<close>; for an identifier that is a non-empty string or a number other than 0 it
  is \<^verbatim>\<open>"video-"\<close> followed by the sanitised identifier; 42 gives \<^verbatim>\<open>"video-42"\<close>.
\<close>

theorem getNamespace_present:
  "getNamespace cfg None = ''frames''
   \<and> (\<not> falsy v \<longrightarrow> getNamespace cfg (Some v) = ''video-'' @ sanitizeIndexName cfg (Some v))
   \<and> getNamespace cfg (Some (IdNum 42)) = ''video-42''"
proof -
  have "numberToString 42 = ''42''"
    by (simp add: numberToString_def digitsOf.simps)
  then have "sanitizeIndexName cfg (Some (IdNum 42)) = ''42''"
    by (simp add: sanitizeIndexName_def trimmedOf_def candidateOf_def toLowerCase_def
          toLowerCase_char_def validChar_def isDash_def trimDashes_def)
  then show ?thesis
    by (simp add: getNamespace_def DEFAULT_NAMESPACE_def)
qed

theorem getNamespace_present_witness:
  "\<not> falsy (IdStr ''Clip 7'')
   \<and> getNamespace exampleConfig (Some (IdStr ''Clip 7'')) = ''video-clip-7''"
proof -
  have "sanitizeIndexName exampleConfig (Some (IdStr ''Clip 7'')) = ''clip-7''"
    by (simp add: sanitizeIndexName_def trimmedOf_def candidateOf_def toLowerCase_def
          toLowerCase_char_def validChar_def isDash_def trimDashes_def)
  then show ?thesis
    using getNamespace_present [of exampleConfig "IdStr ''Clip 7''"] by simp
qed

text \<open>
  Claim C8 as it is written fails for the video identifier 0: the namespace is
  \<^verbatim>\<open>"frames"\<close>, not \<^verbatim>\<open>"video-"\<close> followed by the sanitised identifier.
\<close>

theorem getNamespace_zero_counterexample:
  "getNamespace exampleConfig (Some (IdNum 0))
     \<noteq> ''video-'' @ sanitizeIndexName exampleConfig (Some (IdNum 0))"
  by (simp add: getNamespace_def DEFAULT_NAMESPACE_def)

text \<open>
  Claim C10. A video identifier that is there and falsy, the number 0 or the empty
  string, gets the default namespace \<^verbatim>\<open>"frames"\<close>, the one of a request without an
  identifier; so any two such identifiers share it.
\<close>

theorem getNamespace_falsy:
  "getNamespace cfg (Some (IdNum 0)) = ''frames''
   \<and> getNamespace cfg (Some (IdStr [])) = ''frames''
   \<and> getNamespace cfg (Some (IdNum 0)) = getNamespace cfg None
   \<and> getNamespace cfg (Some (IdStr [])) = getNamespace cfg None
   \<and> getNamespace cfg (Some (IdNum 0)) = getNamespace cfg (Some (IdStr []))"
  by (simp add: getNamespace_def DEFAULT_NAMESPACE_def)


section \<open>The embedding adapter: results\<close>

lemma promiseAll_map_Inr: "promiseAll (map Inr vs) = Inr vs"
  by (induction vs) auto

lemma promiseAll_Inr_D: "promiseAll rs = Inr vs \<Longrightarrow> rs = map Inr vs"
proof (induction rs arbitrary: vs)
  case Nil
  then show ?case by auto
next
  case (Cons r rs)
  then show ?case by (cases r) (auto split: sum.splits)
qed

lemma promiseAll_Inr: "promiseAll rs = Inr vs \<longleftrightarrow> rs = map Inr vs"
  using promiseAll_map_Inr promiseAll_Inr_D by blast

lemma promiseAll_Inl: "(\<exists>e. promiseAll rs = Inl e) \<longleftrightarrow> (\<exists>e. Inl e \<in> set rs)"
proof (induction rs)
  case Nil
  then show ?case by simp
next
  case (Cons r rs)
  then show ?case by (cases r) (auto split: sum.splits)
qed

lemma embedOne_Inr:
  "embedOne svc t = Inr vals \<longleftrightarrow> embedContent svc t = Returns (Some vals) \<and> vals \<noteq> []"
  by (auto simp: embedOne_def split: outcome.splits option.splits if_splits)

lemma embedTexts_success:
  assumes "fst (embedTexts cfg svc texts) = Inr vs"
  shows "length vs = length texts
         \<and> (\<forall>i < length texts. embedContent svc (texts ! i) = Returns (Some (vs ! i)) \<and> vs ! i \<noteq> [])"
proof -
  have "promiseAll (map (embedOne svc) texts) = Inr vs"
    using assms by (auto simp: embedTexts_def Let_def split: if_splits)
  then have eq: "map (embedOne svc) texts = map Inr vs"
    by (simp add: promiseAll_Inr)
  then have len: "length vs = length texts"
    by (metis length_map)
  have "\<forall>i < length texts. embedOne svc (texts ! i) = Inr (vs ! i)"
  proof (intro allI impI)
    fix i assume i: "i < length texts"
    have "map (embedOne svc) texts ! i = map Inr vs ! i" using eq by simp
    then show "embedOne svc (texts ! i) = Inr (vs ! i)" using i len by simp
  qed
  then show ?thesis using len by (simp add: embedOne_Inr)
qed

lemma embedTexts_total:
  assumes "hasGeminiClient cfg" and "texts \<noteq> []"
    and "\<forall>t \<in> set texts. \<exists>vals. embedContent svc t = Returns (Some vals) \<and> vals \<noteq> []"
  shows "\<exists>vs. fst (embedTexts cfg svc texts) = Inr vs"
proof -
  have "\<not> (\<exists>e. Inl e \<in> set (map (embedOne svc) texts))"
  proof
    assume "\<exists>e. Inl e \<in> set (map (embedOne svc) texts)"
    then obtain e where "Inl e \<in> embedOne svc ` set texts" by auto
    then obtain t where t: "t \<in> set texts" and e: "embedOne svc t = Inl e" by force
    obtain vals where "embedContent svc t = Returns (Some vals)" "vals \<noteq> []"
      using assms(3) t by blast
    then have "embedOne svc t = Inr vals" by (simp add: embedOne_Inr)
    then show False using e by simp
  qed
  then have "\<not> (\<exists>e. promiseAll (map (embedOne svc) texts) = Inl e)"
    using promiseAll_Inl [of "map (embedOne svc) texts"] by blast
  then obtain vs where "promiseAll (map (embedOne svc) texts) = Inr vs"
    by (cases "promiseAll (map (embedOne svc) texts)") auto
  then show ?thesis using assms(1,2) by (simp add: embedTexts_def Let_def)
qed

lemma embedTexts_no_vector:
  assumes "t \<in> set texts"
    and "embedContent svc t = Returns None \<or> embedContent svc t = Returns (Some [])
         \<or> (\<exists>msg. embedContent svc t = Throws msg)"
  shows "\<exists>e. fst (embedTexts cfg svc texts) = Inl e"
proof (cases "texts = [] \<or> \<not> hasGeminiClient cfg")
  case True
  then show ?thesis by (auto simp: embedTexts_def)
next
  case False
  have "\<exists>e. embedOne svc t = Inl e"
    using assms(2) by (auto simp: embedOne_def)
  then have "\<exists>e. Inl e \<in> set (map (embedOne svc) texts)"
    using assms(1) by (metis image_eqI list.set_map)
  then have "\<exists>e. promiseAll (map (embedOne svc) texts) = Inl e"
    using promiseAll_Inl [of "map (embedOne svc) texts"] by blast
  then show ?thesis using False by (simp add: embedTexts_def Let_def)
qed

lemma embedTexts_warning:
  assumes "hasGeminiClient cfg" and "i < length texts"
    and "embedContent svc (texts ! i) = Returns (Some vals)" and "vals \<noteq> []"
    and "length vals \<noteq> EMBEDDING_DIMENSION"
  shows "ConsoleWarn (DimensionMismatch EMBEDDING_DIMENSION (length vals))
           \<in> set (snd (embedTexts cfg svc texts))"
proof -
  have ne: "texts \<noteq> []" using assms(2) by auto
  have "embedOne svc (texts ! i) = Inr vals"
    using assms(3,4) by (simp add: embedOne_Inr)
  then have "embedWarnings (embedOne svc (texts ! i))
               = [ConsoleWarn (DimensionMismatch EMBEDDING_DIMENSION (length vals))]"
    using assms(5) by (simp add: embedWarnings_def checkEmbeddingDimensions_def)
  moreover have "texts ! i \<in> set texts" using assms(2) by simp
  ultimately have "ConsoleWarn (DimensionMismatch EMBEDDING_DIMENSION (length vals))
      \<in> set (concat (map embedWarnings (map (embedOne svc) texts)))"
    by (force simp: o_def)
  then show ?thesis using assms(1) ne by (simp add: embedTexts_def Let_def)
qed


text \<open>
  Claim C6. \<open>embedTexts\<close> fails for an empty list of texts. When it returns, it returns
  one vector per text, the one the service gave for that text, in the order of the
  texts; it returns whenever the service gives every text a non-empty vector, whatever
  the lengths of the vectors. It fails when for some text the service gives no vector,
  an empty one, or throws. A vector whose length is not the expected dimension only
  leaves a warning on the console.
\<close>

theorem embedTexts_contract:
  "fst (embedTexts cfg svc []) = Inl NoTextProvided
   \<and> (fst (embedTexts cfg svc texts) = Inr vs \<longrightarrow>
        length vs = length texts
        \<and> (\<forall>i < length texts. embedContent svc (texts ! i) = Returns (Some (vs ! i))))
   \<and> (hasGeminiClient cfg \<and> texts \<noteq> []
        \<and> (\<forall>t \<in> set texts. \<exists>vals. embedContent svc t = Returns (Some vals) \<and> vals \<noteq> [])
      \<longrightarrow> (\<exists>vs. fst (embedTexts cfg svc texts) = Inr vs))
   \<and> (\<forall>t \<in> set texts.
        embedContent svc t = Returns None \<or> embedContent svc t = Returns (Some [])
        \<or> (\<exists>msg. embedContent svc t = Throws msg)
      \<longrightarrow> (\<exists>e. fst (embedTexts cfg svc texts) = Inl e))
   \<and> (\<forall>i < length texts. \<forall>vals.
        hasGeminiClient cfg \<and> embedContent svc (texts ! i) = Returns (Some vals) \<and> vals \<noteq> []
        \<and> length vals \<noteq> EMBEDDING_DIMENSION
      \<longrightarrow> ConsoleWarn (DimensionMismatch EMBEDDING_DIMENSION (length vals))
            \<in> set (snd (embedTexts cfg svc texts)))"
proof (intro conjI)
  show "fst (embedTexts cfg svc []) = Inl NoTextProvided"
    by (simp add: embedTexts_def)
  show "fst (embedTexts cfg svc texts) = Inr vs \<longrightarrow>
        length vs = length texts
        \<and> (\<forall>i < length texts. embedContent svc (texts ! i) = Returns (Some (vs ! i)))"
    using embedTexts_success [of cfg svc texts vs] by blast
  show "hasGeminiClient cfg \<and> texts \<noteq> []
        \<and> (\<forall>t \<in> set texts. \<exists>vals. embedContent svc t = Returns (Some vals) \<and> vals \<noteq> [])
      \<longrightarrow> (\<exists>vs. fst (embedTexts cfg svc texts) = Inr vs)"
    using embedTexts_total [of cfg texts svc] by blast
  show "\<forall>t \<in> set texts.
        embedContent svc t = Returns None \<or> embedContent svc t = Returns (Some [])
        \<or> (\<exists>msg. embedContent svc t = Throws msg)
      \<longrightarrow> (\<exists>e. fst (embedTexts cfg svc texts) = Inl e)"
    using embedTexts_no_vector [of _ texts svc cfg] by blast
  show "\<forall>i < length texts. \<forall>vals.
        hasGeminiClient cfg \<and> embedContent svc (texts ! i) = Returns (Some vals) \<and> vals \<noteq> []
        \<and> length vals \<noteq> EMBEDDING_DIMENSION
      \<longrightarrow> ConsoleWarn (DimensionMismatch EMBEDDING_DIMENSION (length vals))
            \<in> set (snd (embedTexts cfg svc texts))"
    using embedTexts_warning [of cfg _ texts svc] by blast
qed

theorem embedTexts_contract_witness:
  "fst (embedTexts exampleConfig exampleServices [''a'', ''b'']) = Inr [[1, 2], [1, 2]]
   \<and> (\<exists>e. fst (embedTexts exampleConfig exampleServices [''a'', []]) = Inl e)
   \<and> ConsoleWarn (DimensionMismatch EMBEDDING_DIMENSION 2)
        \<in> set (snd (embedTexts exampleConfig exampleServices [''a'', ''b'']))"
proof -
  have g: "hasGeminiClient exampleConfig"
    by (simp add: hasGeminiClient_def exampleConfig_def)
  have ok: "\<forall>t \<in> set [''a'', ''b''].
              \<exists>vals. embedContent exampleServices t = Returns (Some vals) \<and> vals \<noteq> []"
    by (simp add: exampleServices_def)
  have a: "embedContent exampleServices ([''a'', ''b''] ! 0) = Returns (Some [1, 2])"
    by (simp add: exampleServices_def)
  have n: "embedContent exampleServices [] = Returns None"
    by (simp add: exampleServices_def)
  have d: "length [1, 2 :: real] \<noteq> EMBEDDING_DIMENSION"
    by (simp add: EMBEDDING_DIMENSION_def)
  have r: "fst (embedTexts exampleConfig exampleServices [''a'', ''b'']) = Inr [[1, 2], [1, 2]]"
    using g by (simp add: embedTexts_def embedOne_def exampleServices_def)
  have w: "ConsoleWarn (DimensionMismatch EMBEDDING_DIMENSION (length [1, 2 :: real]))
             \<in> set (snd (embedTexts exampleConfig exampleServices [''a'', ''b'']))"
    using embedTexts_contract [of exampleConfig exampleServices "[''a'', ''b'']" "[[1, 2], [1, 2]]"]
      g a d by fastforce
  have f: "\<exists>e. fst (embedTexts exampleConfig exampleServices [''a'', []]) = Inl e"
    using embedTexts_contract [of exampleConfig exampleServices "[''a'', []]"] n by simp
  have l: "length [1, 2 :: real] = 2" by simp
  show ?thesis using r w f unfolding l by blast
qed


section \<open>The analyze action: results\<close>

lemma afterEnsure_response:
  assumes "afterEnsure ensured body = (resp, es, s')" and "\<forall>e. resp \<noteq> ServerError e"
  shows "fst body = resp \<and> (\<exists>es0. es = es0 @ snd body \<and> fst ensured = Inr ())"
  using assms by (cases ensured) (auto simp: afterEnsure_def split: sum.splits)

lemma generateStep_ok:
  assumes "generateStep cfg svc question ordered indexName es = (AnalyzeOk answer cites idx, es')"
  shows "cites = map citationOf ordered \<and> idx = indexName
         \<and> es' = es @ [GenerateContent question ordered]
         \<and> (\<exists>resp. generateContent svc question ordered = Returns resp
                    \<and> extractAnswer resp = Inr answer)"
  using assms
  by (auto simp: generateStep_def split: if_splits outcome.splits sum.splits)

lemma analyzeBody_ok:
  assumes "analyzeBody cfg svc p indexName = (AnalyzeOk answer cites idx, es)"
  shows "\<exists>namespace vec k result question resp.
           QueryIndex indexName namespace vec k \<in> set es
           \<and> queryIndex svc indexName namespace vec k = Returns result
           \<and> cites = map citationOf (sortedMatches (case result of None \<Rightarrow> [] | Some ms \<Rightarrow> ms))
           \<and> idx = indexName
           \<and> q_question p = Some question
           \<and> GenerateContent question (sortedMatches (case result of None \<Rightarrow> [] | Some ms \<Rightarrow> ms)) \<in> set es
           \<and> generateContent svc question (sortedMatches (case result of None \<Rightarrow> [] | Some ms \<Rightarrow> ms))
               = Returns resp
           \<and> extractAnswer resp = Inr answer"
proof -
  have nq: "\<not> noQuestion (q_question p)"
    using assms by (auto simp: analyzeBody_def split: if_splits)
  then obtain question where q: "q_question p = Some question"
    by (auto simp: noQuestion_def split: option.splits)
  obtain er es1 where e: "embedTexts cfg svc [question] = (er, es1)"
    by fastforce
  obtain embeddings where er: "er = Inr embeddings"
    using assms nq q e by (cases er) (auto simp: analyzeBody_def Let_def)
  define vec where "vec = (case firstVector embeddings of None \<Rightarrow> [] | Some v \<Rightarrow> v)"
  define namespace where "namespace = getNamespace cfg (q_videoId p)"
  define k where "k = topKOr (q_topK p) 10 50"
  have body: "analyzeBody cfg svc p indexName =
      (case queryIndex svc indexName namespace vec k of
         Throws msg \<Rightarrow> (ServerError (ServiceError msg), es1 @ [QueryIndex indexName namespace vec k])
       | Returns result \<Rightarrow>
           generateStep cfg svc question
             (sortedMatches (case result of None \<Rightarrow> [] | Some ms \<Rightarrow> ms)) indexName
             (es1 @ [QueryIndex indexName namespace vec k]))"
    using nq q e er
    by (simp add: analyzeBody_def Let_def vec_def namespace_def k_def split: outcome.splits)
  obtain result where qr: "queryIndex svc indexName namespace vec k = Returns result"
    using assms body by (cases "queryIndex svc indexName namespace vec k") auto
  have g: "generateStep cfg svc question
             (sortedMatches (case result of None \<Rightarrow> [] | Some ms \<Rightarrow> ms)) indexName
             (es1 @ [QueryIndex indexName namespace vec k]) = (AnalyzeOk answer cites idx, es)"
    using assms body qr by simp
  from generateStep_ok [OF g] obtain resp where
    c: "cites = map citationOf (sortedMatches (case result of None \<Rightarrow> [] | Some ms \<Rightarrow> ms))"
    and i: "idx = indexName"
    and es: "es = (es1 @ [QueryIndex indexName namespace vec k])
                  @ [GenerateContent question (sortedMatches (case result of None \<Rightarrow> [] | Some ms \<Rightarrow> ms))]"
    and gr: "generateContent svc question (sortedMatches (case result of None \<Rightarrow> [] | Some ms \<Rightarrow> ms))
               = Returns resp"
    and ea: "extractAnswer resp = Inr answer"
    by blast
  have m1: "QueryIndex indexName namespace vec k \<in> set es" using es by simp
  have m2: "GenerateContent question (sortedMatches (case result of None \<Rightarrow> [] | Some ms \<Rightarrow> ms)) \<in> set es"
    using es by simp
  show ?thesis using m1 m2 qr c i q gr ea by blast
qed

lemma POST_analyze_ok:
  assumes "POST cfg svc s (Analyze p) = (AnalyzeOk answer cites idx, es, s')"
  shows "\<exists>namespace vec k result question resp.
           QueryIndex idx namespace vec k \<in> set es
           \<and> queryIndex svc idx namespace vec k = Returns result
           \<and> cites = map citationOf (sortedMatches (case result of None \<Rightarrow> [] | Some ms \<Rightarrow> ms))
           \<and> q_question p = Some question
           \<and> GenerateContent question (sortedMatches (case result of None \<Rightarrow> [] | Some ms \<Rightarrow> ms)) \<in> set es
           \<and> generateContent svc question (sortedMatches (case result of None \<Rightarrow> [] | Some ms \<Rightarrow> ms))
               = Returns resp
           \<and> extractAnswer resp = Inr answer"
proof -
  let ?idx = "resolveIndexName cfg (q_indexName p)"
  have a: "afterEnsure (ensureUnlessSkipped cfg svc s (q_skipEnsure p) ?idx)
             (analyzeBody cfg svc p ?idx) = (AnalyzeOk answer cites idx, es, s')"
    using assms by (simp add: POST_def postAnalyze_def Let_def split: option.splits)
  from afterEnsure_response [OF a]
  obtain es0 where b: "fst (analyzeBody cfg svc p ?idx) = AnalyzeOk answer cites idx"
    and es: "es = es0 @ snd (analyzeBody cfg svc p ?idx)" by auto
  then have "analyzeBody cfg svc p ?idx = (AnalyzeOk answer cites idx, snd (analyzeBody cfg svc p ?idx))"
    by (metis prod.collapse)
  from analyzeBody_ok [OF this] obtain namespace vec k result question resp where
    f: "QueryIndex ?idx namespace vec k \<in> set (snd (analyzeBody cfg svc p ?idx))"
      "queryIndex svc ?idx namespace vec k = Returns result"
      "cites = map citationOf (sortedMatches (case result of None \<Rightarrow> [] | Some ms \<Rightarrow> ms))"
      "idx = ?idx"
      "q_question p = Some question"
      "GenerateContent question (sortedMatches (case result of None \<Rightarrow> [] | Some ms \<Rightarrow> ms))
         \<in> set (snd (analyzeBody cfg svc p ?idx))"
      "generateContent svc question (sortedMatches (case result of None \<Rightarrow> [] | Some ms \<Rightarrow> ms))
         = Returns resp"
      "extractAnswer resp = Inr answer"
    by blast
  have "QueryIndex idx namespace vec k \<in> set es"
    and "GenerateContent question (sortedMatches (case result of None \<Rightarrow> [] | Some ms \<Rightarrow> ms)) \<in> set es"
    using f(1,4,6) es by auto
  then show ?thesis using f by blast
qed

lemma sortedMatches_sorted: "sorted (map timestampOrZero (sortedMatches ms))"
  by (simp add: sortedMatches_def)

lemma sortedMatches_mset: "mset (sortedMatches ms) = mset ms"
  by (simp add: sortedMatches_def)

lemma sortedMatches_stable:
  "filter (\<lambda>m. timestampOrZero m = t) (sortedMatches ms) = filter (\<lambda>m. timestampOrZero m = t) ms"
  by (simp add: sortedMatches_def sort_key_stable)

lemma timestampOrZero_reads:
  assumes "chronologicalInput ms" and "m \<in> set ms"
  shows "timestampOf m = JNum (timestampOrZero m) \<or> (nullish (timestampOf m) \<and> timestampOrZero m = 0)"
proof -
  have "nullish (timestampOf m) \<or> isNumber (timestampOf m)"
    using assms by (simp add: chronologicalInput_def list_all_iff)
  then show ?thesis
    by (cases "timestampOf m") (auto simp: timestampOrZero_def orElse_def nullish_def)
qed

lemma sortedMatches_order_free:
  assumes "distinct (map timestampOrZero ms)" and "mset ms' = mset ms"
  shows "sortedMatches ms' = sortedMatches ms"
  by (metis assms(1,2) distinct_map sort_key_eq_sort_key sortedMatches_def)

lemmas example_defs =
  POST_def requireClients_def hasPineconeClient_def hasGeminiClient_def exampleConfig_def
  resolveIndexName_def sanitizeIndexName_def trimmedOf_def candidateOf_def toLowerCase_def
  toLowerCase_char_def validChar_def isDash_def trimDashes_def DEFAULT_INDEX_NAME_def
  getNamespace_def DEFAULT_NAMESPACE_def numberToString_def digitsOf.simps
  afterEnsure_def ensureUnlessSkipped_def embedTexts_def embedOne_def embedWarnings_def
  checkEmbeddingDimensions_def EMBEDDING_DIMENSION_def exampleServices_def firstVector_def
  topKOr_def noQuestion_def Let_def

lemma sorted_example:
  "sortedMatches exampleMatches = [manifestMatch, frameMatch ''a'' 1, frameMatch ''b'' 3, frameMatch ''c'' 5]"
  by (simp add: sortedMatches_def exampleMatches_def frameMatch_def manifestMatch_def
        timestampOrZero_def timestampOf_def field_def orElse_def nullish_def)

lemma analyze_example:
  "POST exampleConfig exampleServices noAttempts
     (Analyze \<lparr>q_indexName = None, q_videoId = Some (IdNum 1), q_question = Some ''what happens?'',
               q_topK = None, q_skipEnsure = True\<rparr>)
   = (AnalyzeOk [] (map citationOf (sortedMatches exampleMatches)) ''video-frames'',
      [EmbedContent ''what happens?'',
       ConsoleWarn (DimensionMismatch 3072 2),
       QueryIndex ''video-frames'' ''video-1'' [1, 2] 10,
       GenerateContent ''what happens?'' (sortedMatches exampleMatches)],
      noAttempts)"
  by (simp add: example_defs postAnalyze_def analyzeBody_def generateStep_def extractAnswer_def)

lemma extractAnswer_no_text: "noUsableText resp \<Longrightarrow> extractAnswer resp = Inr []"
  by (auto simp: noUsableText_def extractAnswer_def split: option.splits)

lemma extractAnswer_Inl:
  "extractAnswer resp = Inl e \<longleftrightarrow>
     (\<exists>r msg. resp = Some r \<and> text_method r = Some (Throws msg) \<and> e = ServiceError msg)"
  by (auto simp: extractAnswer_def split: option.splits outcome.splits)

lemma extractAnswer_text:
  "text_method r = Some (Returns (Some t)) \<Longrightarrow> extractAnswer (Some r) = Inr t"
  by (simp add: extractAnswer_def)

lemma extractAnswer_parts:
  "text_method r = None \<or> text_method r = Some (Returns None) \<Longrightarrow>
   first_candidate_parts r = Some parts \<Longrightarrow>
   extractAnswer (Some r) = Inr (joinLines (map (\<lambda>p. case p of None \<Rightarrow> [] | Some t \<Rightarrow> t) parts))"
  by (auto simp: extractAnswer_def)

lemma generateStep_no_text:
  assumes "hasGeminiClient cfg" and "generateContent svc question ordered = Returns resp"
    and "noUsableText resp"
  shows "generateStep cfg svc question ordered indexName es
         = (AnalyzeOk [] (map citationOf ordered) indexName, es @ [GenerateContent question ordered])"
  using assms by (simp add: generateStep_def extractAnswer_no_text)


text \<open>
  Claim C3. When the analyze action answers, its citations are the matches of the store
  in the order of \<open>sortedMatches\<close>, each with the identifier, score and metadata of its
  match. For matches whose timestamps are numbers or missing, \<open>sortedMatches\<close> is a
  permutation of the matches, ascending in the timestamp with a missing one read as 0,
  keeps the store's order among equal timestamps, and for distinct timestamps does not
  depend on the order the store gave; timestamps 5, 1, 3 come out as 1, 3, 5.
\<close>

theorem analyze_citations_chronological:
  "(POST cfg svc s (Analyze p) = (AnalyzeOk answer cites idx, es, s') \<longrightarrow>
      (\<exists>namespace vec k result.
          QueryIndex idx namespace vec k \<in> set es
          \<and> queryIndex svc idx namespace vec k = Returns result
          \<and> cites = map citationOf (sortedMatches (case result of None \<Rightarrow> [] | Some ms \<Rightarrow> ms))))
   \<and> c_id (citationOf m) = m_id m \<and> c_score (citationOf m) = m_score m
   \<and> c_metadata (citationOf m) = m_metadata m
   \<and> (chronologicalInput ms \<longrightarrow>
        mset (sortedMatches ms) = mset ms
        \<and> sorted (map timestampOrZero (sortedMatches ms))
        \<and> (\<forall>x \<in> set ms. timestampOf x = JNum (timestampOrZero x)
                          \<or> (nullish (timestampOf x) \<and> timestampOrZero x = 0))
        \<and> (\<forall>t. filter (\<lambda>x. timestampOrZero x = t) (sortedMatches ms)
                 = filter (\<lambda>x. timestampOrZero x = t) ms)
        \<and> (\<forall>ms'. distinct (map timestampOrZero ms) \<and> mset ms' = mset ms
                   \<longrightarrow> sortedMatches ms' = sortedMatches ms))
   \<and> map timestampOf (sortedMatches [frameMatch ''x'' 5, frameMatch ''y'' 1, frameMatch ''z'' 3])
       = [JNum 1, JNum 3, JNum 5]"
proof -
  have ex: "map timestampOf (sortedMatches [frameMatch ''x'' 5, frameMatch ''y'' 1, frameMatch ''z'' 3])
       = [JNum 1, JNum 3, JNum 5]"
    by (simp add: sortedMatches_def frameMatch_def timestampOrZero_def timestampOf_def field_def
          orElse_def nullish_def)
  have c: "c_id (citationOf m) = m_id m \<and> c_score (citationOf m) = m_score m
           \<and> c_metadata (citationOf m) = m_metadata m"
    by (simp add: citationOf_def)
  show ?thesis
    using ex c POST_analyze_ok [of cfg svc s p answer cites idx es s']
      sortedMatches_mset [of ms] sortedMatches_sorted [of ms]
      timestampOrZero_reads [of ms] sortedMatches_stable [of _ ms]
      sortedMatches_order_free [of ms]
    by (intro conjI impI) blast+
qed

theorem analyze_citations_chronological_witness:
  "POST exampleConfig exampleServices noAttempts
     (Analyze \<lparr>q_indexName = None, q_videoId = Some (IdNum 1), q_question = Some ''what happens?'',
               q_topK = None, q_skipEnsure = True\<rparr>)
   = (AnalyzeOk [] (map citationOf (sortedMatches exampleMatches)) ''video-frames'',
      [EmbedContent ''what happens?'',
       ConsoleWarn (DimensionMismatch 3072 2),
       QueryIndex ''video-frames'' ''video-1'' [1, 2] 10,
       GenerateContent ''what happens?'' (sortedMatches exampleMatches)],
      noAttempts)
   \<and> chronologicalInput exampleMatches
   \<and> sorted (map timestampOrZero (sortedMatches exampleMatches))
   \<and> map m_id (sortedMatches exampleMatches) = [''video-1::manifest'', ''a'', ''b'', ''c'']
   \<and> (\<exists>namespace vec k result.
          queryIndex exampleServices ''video-frames'' namespace vec k = Returns result
          \<and> map citationOf (sortedMatches exampleMatches)
             = map citationOf (sortedMatches (case result of None \<Rightarrow> [] | Some ms \<Rightarrow> ms)))"
proof -
  have ci: "chronologicalInput exampleMatches"
    by (simp add: chronologicalInput_def exampleMatches_def frameMatch_def manifestMatch_def
          timestampOf_def field_def nullish_def)
  have ids: "map m_id (sortedMatches exampleMatches) = [''video-1::manifest'', ''a'', ''b'', ''c'']"
    by (simp add: sorted_example frameMatch_def manifestMatch_def)
  note t = analyze_citations_chronological [of exampleConfig exampleServices noAttempts
      "\<lparr>q_indexName = None, q_videoId = Some (IdNum 1), q_question = Some ''what happens?'',
        q_topK = None, q_skipEnsure = True\<rparr>"
      "[]" "map citationOf (sortedMatches exampleMatches)" "''video-frames''"
      "[EmbedContent ''what happens?'',
       ConsoleWarn (DimensionMismatch 3072 2),
       QueryIndex ''video-frames'' ''video-1'' [1, 2] 10,
       GenerateContent ''what happens?'' (sortedMatches exampleMatches)]"
      noAttempts _ exampleMatches]
  have s: "sorted (map timestampOrZero (sortedMatches exampleMatches))"
    using t ci by blast
  have q: "\<exists>namespace vec k result.
          queryIndex exampleServices ''video-frames'' namespace vec k = Returns result
          \<and> map citationOf (sortedMatches exampleMatches)
             = map citationOf (sortedMatches (case result of None \<Rightarrow> [] | Some ms \<Rightarrow> ms))"
    using t analyze_example by blast
  show ?thesis using analyze_example ci s ids q by blast
qed

lemma requireClients_gemini: "requireClients cfg = None \<Longrightarrow> hasGeminiClient cfg"
  by (simp add: requireClients_def split: if_splits)

lemma extractAnswer_throws:
  "text_method r = Some (Throws msg) \<Longrightarrow> extractAnswer (Some r) = Inl (ServiceError msg)"
  by (simp add: extractAnswer_def)

lemma extractAnswer_nothing:
  "text_method r = None \<or> text_method r = Some (Returns None) \<Longrightarrow>
   first_candidate_parts r = None \<Longrightarrow> extractAnswer (Some r) = Inr []"
  by (auto simp: extractAnswer_def)

lemma generateStep_cases:
  assumes "hasGeminiClient cfg"
  shows "(generateContent svc question ordered = Throws msg \<longrightarrow>
            generateStep cfg svc question ordered indexName es
              = (ServerError (ServiceError msg), es @ [GenerateContent question ordered]))
         \<and> (generateContent svc question ordered = Returns resp \<and> extractAnswer resp = Inl e \<longrightarrow>
            generateStep cfg svc question ordered indexName es
              = (ServerError e, es @ [GenerateContent question ordered]))
         \<and> (generateContent svc question ordered = Returns resp \<and> extractAnswer resp = Inr answer \<longrightarrow>
            generateStep cfg svc question ordered indexName es
              = (AnalyzeOk answer (map citationOf ordered) indexName,
                 es @ [GenerateContent question ordered]))"
  using assms by (simp add: generateStep_def)

lemma analyzeBody_reaches:
  assumes "q_question p = Some q" and "q \<noteq> []"
    and "embedTexts cfg svc [q] = (Inr embeddings, es1)"
    and "queryIndex svc indexName (getNamespace cfg (q_videoId p))
           (case firstVector embeddings of None \<Rightarrow> [] | Some v \<Rightarrow> v)
           (topKOr (q_topK p) 10 50) = Returns result"
  shows "analyzeBody cfg svc p indexName
         = generateStep cfg svc q (sortedMatches (case result of None \<Rightarrow> [] | Some ms \<Rightarrow> ms)) indexName
             (es1 @ [QueryIndex indexName (getNamespace cfg (q_videoId p))
                       (case firstVector embeddings of None \<Rightarrow> [] | Some v \<Rightarrow> v)
                       (topKOr (q_topK p) 10 50)])"
  using assms by (simp add: analyzeBody_def noQuestion_def Let_def)

lemma POST_analyze_reaches:
  assumes "requireClients cfg = None"
    and "ensureUnlessSkipped cfg svc s (q_skipEnsure p) (resolveIndexName cfg (q_indexName p))
           = (Inr (), es0, s1)"
    and "q_question p = Some q" and "q \<noteq> []"
    and "embedTexts cfg svc [q] = (Inr embeddings, es1)"
    and "queryIndex svc (resolveIndexName cfg (q_indexName p)) (getNamespace cfg (q_videoId p))
           (case firstVector embeddings of None \<Rightarrow> [] | Some v \<Rightarrow> v)
           (topKOr (q_topK p) 10 50) = Returns result"
  shows "fst (POST cfg svc s (Analyze p))
         = fst (generateStep cfg svc q (sortedMatches (case result of None \<Rightarrow> [] | Some ms \<Rightarrow> ms))
                  (resolveIndexName cfg (q_indexName p))
                  (es1 @ [QueryIndex (resolveIndexName cfg (q_indexName p)) (getNamespace cfg (q_videoId p))
                            (case firstVector embeddings of None \<Rightarrow> [] | Some v \<Rightarrow> v)
                            (topKOr (q_topK p) 10 50)]))"
  using assms(1,2) analyzeBody_reaches [OF assms(3,4,5,6)]
  by (simp add: POST_def postAnalyze_def afterEnsure_def Let_def)

lemma POST_analyze_outcomes:
  assumes "requireClients cfg = None"
    and "ensureUnlessSkipped cfg svc s (q_skipEnsure p) (resolveIndexName cfg (q_indexName p))
           = (Inr (), es0, s1)"
    and "q_question p = Some q" and "q \<noteq> []"
    and "embedTexts cfg svc [q] = (Inr embeddings, es1)"
    and "queryIndex svc (resolveIndexName cfg (q_indexName p)) (getNamespace cfg (q_videoId p))
           (case firstVector embeddings of None \<Rightarrow> [] | Some v \<Rightarrow> v)
           (topKOr (q_topK p) 10 50) = Returns result"
  shows "(generateContent svc q (sortedMatches (case result of None \<Rightarrow> [] | Some ms \<Rightarrow> ms)) = Throws msg
            \<longrightarrow> fst (POST cfg svc s (Analyze p)) = ServerError (ServiceError msg))
         \<and> (generateContent svc q (sortedMatches (case result of None \<Rightarrow> [] | Some ms \<Rightarrow> ms)) = Returns resp
              \<and> extractAnswer resp = Inl e
            \<longrightarrow> fst (POST cfg svc s (Analyze p)) = ServerError e)
         \<and> (generateContent svc q (sortedMatches (case result of None \<Rightarrow> [] | Some ms \<Rightarrow> ms)) = Returns resp
              \<and> extractAnswer resp = Inr answer
            \<longrightarrow> fst (POST cfg svc s (Analyze p))
                = AnalyzeOk answer
                    (map citationOf (sortedMatches (case result of None \<Rightarrow> [] | Some ms \<Rightarrow> ms)))
                    (resolveIndexName cfg (q_indexName p)))
         \<and> (fst (POST cfg svc s (Analyze p)) = ServerError err \<longrightarrow>
              (\<exists>m. generateContent svc q (sortedMatches (case result of None \<Rightarrow> [] | Some ms \<Rightarrow> ms))
                      = Throws m \<and> err = ServiceError m)
              \<or> (\<exists>r m. generateContent svc q (sortedMatches (case result of None \<Rightarrow> [] | Some ms \<Rightarrow> ms))
                      = Returns (Some r) \<and> text_method r = Some (Throws m) \<and> err = ServiceError m))"
proof -
  let ?ord = "sortedMatches (case result of None \<Rightarrow> [] | Some ms \<Rightarrow> ms)"
  let ?idx = "resolveIndexName cfg (q_indexName p)"
  let ?es = "es1 @ [QueryIndex ?idx (getNamespace cfg (q_videoId p))
                            (case firstVector embeddings of None \<Rightarrow> [] | Some v \<Rightarrow> v)
                            (topKOr (q_topK p) 10 50)]"
  have g: "hasGeminiClient cfg" using assms(1) by (rule requireClients_gemini)
  have r: "fst (POST cfg svc s (Analyze p)) = fst (generateStep cfg svc q ?ord ?idx ?es)"
    using assms by (rule POST_analyze_reaches)
  have 1: "generateContent svc q ?ord = Throws msg
            \<longrightarrow> fst (POST cfg svc s (Analyze p)) = ServerError (ServiceError msg)"
    using r generateStep_cases [OF g, of svc q ?ord msg ?idx ?es] by simp
  have 2: "generateContent svc q ?ord = Returns resp \<and> extractAnswer resp = Inl e
            \<longrightarrow> fst (POST cfg svc s (Analyze p)) = ServerError e"
    using r generateStep_cases [OF g, of svc q ?ord _ ?idx ?es resp e] by simp
  have 3: "generateContent svc q ?ord = Returns resp \<and> extractAnswer resp = Inr answer
            \<longrightarrow> fst (POST cfg svc s (Analyze p)) = AnalyzeOk answer (map citationOf ?ord) ?idx"
    using r generateStep_cases [OF g, of svc q ?ord _ ?idx ?es resp _ answer] by simp
  have 4: "fst (POST cfg svc s (Analyze p)) = ServerError err \<longrightarrow>
              (\<exists>m. generateContent svc q ?ord = Throws m \<and> err = ServiceError m)
              \<or> (\<exists>r m. generateContent svc q ?ord = Returns (Some r)
                         \<and> text_method r = Some (Throws m) \<and> err = ServiceError m)"
  proof
    assume f: "fst (POST cfg svc s (Analyze p)) = ServerError err"
    show "(\<exists>m. generateContent svc q ?ord = Throws m \<and> err = ServiceError m)
              \<or> (\<exists>r m. generateContent svc q ?ord = Returns (Some r)
                         \<and> text_method r = Some (Throws m) \<and> err = ServiceError m)"
    proof (cases "generateContent svc q ?ord")
      case (Throws m)
      then have "fst (generateStep cfg svc q ?ord ?idx ?es) = ServerError (ServiceError m)"
        using generateStep_cases [OF g, of svc q ?ord m ?idx ?es] by simp
      then show ?thesis using f r Throws by simp
    next
      case (Returns rs)
      show ?thesis
      proof (cases "extractAnswer rs")
        case (Inl e')
        then have "fst (generateStep cfg svc q ?ord ?idx ?es) = ServerError e'"
          using Returns generateStep_cases [OF g, of svc q ?ord _ ?idx ?es rs e'] by simp
        then have "err = e'" using f r by simp
        then show ?thesis using Inl Returns extractAnswer_Inl [of rs e'] by blast
      next
        case (Inr a)
        then have "fst (generateStep cfg svc q ?ord ?idx ?es) = AnalyzeOk a (map citationOf ?ord) ?idx"
          using Returns generateStep_cases [OF g, of svc q ?ord _ ?idx ?es rs _ a] by simp
        then show ?thesis using f r by simp
      qed
    qed
  qed
  show ?thesis using 1 2 3 4 by blast
qed


lemma example_answering_reached:
  "requireClients exampleConfig = None
   \<and> ensureUnlessSkipped exampleConfig (exampleAnswering out) noAttempts (q_skipEnsure exampleQuestion)
        (resolveIndexName exampleConfig (q_indexName exampleQuestion)) = (Inr (), [], noAttempts)
   \<and> q_question exampleQuestion = Some ''what happens?''
   \<and> ''what happens?'' \<noteq> []
   \<and> embedTexts exampleConfig (exampleAnswering out) [''what happens?'']
       = (Inr [[1, 2]], [EmbedContent ''what happens?'', ConsoleWarn (DimensionMismatch 3072 2)])
   \<and> queryIndex (exampleAnswering out) (resolveIndexName exampleConfig (q_indexName exampleQuestion))
        (getNamespace exampleConfig (q_videoId exampleQuestion))
        (case firstVector [[1, 2]] of None \<Rightarrow> [] | Some v \<Rightarrow> v)
        (topKOr (q_topK exampleQuestion) 10 50) = Returns (Some exampleMatches)"
  by (simp add: example_defs exampleAnswering_def exampleQuestion_def)

lemma example_answering_generate:
  "generateContent (exampleAnswering out) question ordered = out"
  by (simp add: exampleAnswering_def)

lemma example_question_index:
  "resolveIndexName exampleConfig (q_indexName exampleQuestion) = ''video-frames''"
  by (simp add: example_defs exampleQuestion_def)

text \<open>
  Claim C7 as it is written fails: for a generation response without usable text the
  analyze action answers with status ok and the empty answer.
\<close>

theorem analyze_no_text_counterexample:
  "noUsableText (Some \<lparr>text_method = Some (Returns (Some [])), first_candidate_parts = None\<rparr>)
   \<and> generateContent exampleServices ''what happens?'' (sortedMatches exampleMatches)
       = Returns (Some \<lparr>text_method = Some (Returns (Some [])), first_candidate_parts = None\<rparr>)
   \<and> fst (POST exampleConfig exampleServices noAttempts
            (Analyze \<lparr>q_indexName = None, q_videoId = Some (IdNum 1),
                      q_question = Some ''what happens?'', q_topK = None, q_skipEnsure = True\<rparr>))
       = AnalyzeOk [] (map citationOf (sortedMatches exampleMatches)) ''video-frames''"
  by (simp add: analyze_example noUsableText_def) (simp add: exampleServices_def)

text \<open>
  Claim C7, as the code has it. The answer of the analyze action is what \<open>extractAnswer\<close>
  reads from the generation response: the text the \<^verbatim>\<open>text\<close> method returns, else the
  texts of the first candidate's parts joined by line feeds, else the empty string; the
  extraction fails exactly when the \<^verbatim>\<open>text\<close> method throws, with the error thrown.
  The generation step, given a generation client, answers with status 500 and the error
  when the generation call throws or the extraction fails, and otherwise with status ok,
  the extracted answer and the citations of the matches. For every analyze request that
  reaches the generation step (the clients are configured, provisioning succeeds, the
  question is not empty, the embedding and the index query succeed) the handler answers
  the same way: status 500 with the error when the generation call or the \<^verbatim>\<open>text\<close>
  method throws, and only then; status ok with the extracted answer otherwise. So a
  response without usable text gives the empty answer with status ok, and a response
  with a text gives that text.
\<close>

theorem analyze_answer_extraction:
  "(POST cfg svc s (Analyze p) = (AnalyzeOk answer cites idx, es, s') \<longrightarrow>
      (\<exists>question ordered resp.
          GenerateContent question ordered \<in> set es
          \<and> generateContent svc question ordered = Returns resp
          \<and> extractAnswer resp = Inr answer))
   \<and> (noUsableText resp \<longrightarrow> extractAnswer resp = Inr [])
   \<and> (text_method r = Some (Returns (Some t)) \<longrightarrow> extractAnswer (Some r) = Inr t)
   \<and> ((text_method r = None \<or> text_method r = Some (Returns None))
        \<and> first_candidate_parts r = Some parts \<longrightarrow>
        extractAnswer (Some r)
          = Inr (joinLines (map (\<lambda>p. case p of None \<Rightarrow> [] | Some t \<Rightarrow> t) parts)))
   \<and> (extractAnswer resp = Inl e \<longleftrightarrow>
        (\<exists>r msg. resp = Some r \<and> text_method r = Some (Throws msg) \<and> e = ServiceError msg))
   \<and> (hasGeminiClient cfg \<and> generateContent svc question ordered = Returns resp
        \<and> noUsableText resp \<longrightarrow>
        generateStep cfg svc question ordered indexName esG
          = (AnalyzeOk [] (map citationOf ordered) indexName,
             esG @ [GenerateContent question ordered]))
   \<and> extractAnswer None = Inr []
   \<and> (text_method r = Some (Throws gmsg) \<longrightarrow> extractAnswer (Some r) = Inl (ServiceError gmsg))
   \<and> ((text_method r = None \<or> text_method r = Some (Returns None))
        \<and> first_candidate_parts r = None \<longrightarrow> extractAnswer (Some r) = Inr [])
   \<and> (hasGeminiClient cfg \<longrightarrow>
        (generateContent svc question ordered = Throws gmsg \<longrightarrow>
           generateStep cfg svc question ordered indexName esG
             = (ServerError (ServiceError gmsg), esG @ [GenerateContent question ordered]))
        \<and> (generateContent svc question ordered = Returns resp \<and> extractAnswer resp = Inl e \<longrightarrow>
           generateStep cfg svc question ordered indexName esG
             = (ServerError e, esG @ [GenerateContent question ordered]))
        \<and> (generateContent svc question ordered = Returns resp \<and> extractAnswer resp = Inr ans \<longrightarrow>
           generateStep cfg svc question ordered indexName esG
             = (AnalyzeOk ans (map citationOf ordered) indexName,
                esG @ [GenerateContent question ordered])))
   \<and> (requireClients cfg = None
        \<and> ensureUnlessSkipped cfg svc s (q_skipEnsure p) (resolveIndexName cfg (q_indexName p))
            = (Inr (), esE, sE)
        \<and> q_question p = Some q \<and> q \<noteq> []
        \<and> embedTexts cfg svc [q] = (Inr embeddings, esQ)
        \<and> queryIndex svc (resolveIndexName cfg (q_indexName p)) (getNamespace cfg (q_videoId p))
            (case firstVector embeddings of None \<Rightarrow> [] | Some v \<Rightarrow> v)
            (topKOr (q_topK p) 10 50) = Returns result
      \<longrightarrow>
        (generateContent svc q (sortedMatches (case result of None \<Rightarrow> [] | Some ms \<Rightarrow> ms)) = Throws gmsg
            \<longrightarrow> fst (POST cfg svc s (Analyze p)) = ServerError (ServiceError gmsg))
        \<and> (generateContent svc q (sortedMatches (case result of None \<Rightarrow> [] | Some ms \<Rightarrow> ms)) = Returns resp
             \<and> extractAnswer resp = Inl e
            \<longrightarrow> fst (POST cfg svc s (Analyze p)) = ServerError e)
        \<and> (generateContent svc q (sortedMatches (case result of None \<Rightarrow> [] | Some ms \<Rightarrow> ms)) = Returns resp
             \<and> extractAnswer resp = Inr ans
            \<longrightarrow> fst (POST cfg svc s (Analyze p))
                = AnalyzeOk ans
                    (map citationOf (sortedMatches (case result of None \<Rightarrow> [] | Some ms \<Rightarrow> ms)))
                    (resolveIndexName cfg (q_indexName p)))
        \<and> (fst (POST cfg svc s (Analyze p)) = ServerError err \<longrightarrow>
              (\<exists>m. generateContent svc q (sortedMatches (case result of None \<Rightarrow> [] | Some ms \<Rightarrow> ms))
                      = Throws m \<and> err = ServiceError m)
              \<or> (\<exists>r m. generateContent svc q (sortedMatches (case result of None \<Rightarrow> [] | Some ms \<Rightarrow> ms))
                      = Returns (Some r) \<and> text_method r = Some (Throws m) \<and> err = ServiceError m)))"
proof -
  have 1: "POST cfg svc s (Analyze p) = (AnalyzeOk answer cites idx, es, s') \<longrightarrow>
      (\<exists>question ordered resp.
          GenerateContent question ordered \<in> set es
          \<and> generateContent svc question ordered = Returns resp
          \<and> extractAnswer resp = Inr answer)"
    using POST_analyze_ok [of cfg svc s p answer cites idx es s'] by blast
  have 2: "noUsableText resp \<longrightarrow> extractAnswer resp = Inr []"
    by (simp add: extractAnswer_no_text)
  have 3: "text_method r = Some (Returns (Some t)) \<longrightarrow> extractAnswer (Some r) = Inr t"
    by (simp add: extractAnswer_text)
  have 4: "(text_method r = None \<or> text_method r = Some (Returns None))
        \<and> first_candidate_parts r = Some parts \<longrightarrow>
        extractAnswer (Some r)
          = Inr (joinLines (map (\<lambda>p. case p of None \<Rightarrow> [] | Some t \<Rightarrow> t) parts))"
    using extractAnswer_parts [of r parts] by blast
  have 5: "extractAnswer resp = Inl e \<longleftrightarrow>
        (\<exists>r msg. resp = Some r \<and> text_method r = Some (Throws msg) \<and> e = ServiceError msg)"
    by (rule extractAnswer_Inl)
  have 6: "hasGeminiClient cfg \<and> generateContent svc question ordered = Returns resp
        \<and> noUsableText resp \<longrightarrow>
        generateStep cfg svc question ordered indexName esG
          = (AnalyzeOk [] (map citationOf ordered) indexName,
             esG @ [GenerateContent question ordered])"
    using generateStep_no_text [of cfg svc question ordered resp indexName esG] by blast
  have 7: "extractAnswer None = Inr []"
    by (simp add: extractAnswer_def)
  have 8: "text_method r = Some (Throws gmsg) \<longrightarrow> extractAnswer (Some r) = Inl (ServiceError gmsg)"
    by (simp add: extractAnswer_throws)
  have 9: "(text_method r = None \<or> text_method r = Some (Returns None))
        \<and> first_candidate_parts r = None \<longrightarrow> extractAnswer (Some r) = Inr []"
    using extractAnswer_nothing [of r] by blast
  have 10: "hasGeminiClient cfg \<longrightarrow>
        (generateContent svc question ordered = Throws gmsg \<longrightarrow>
           generateStep cfg svc question ordered indexName esG
             = (ServerError (ServiceError gmsg), esG @ [GenerateContent question ordered]))
        \<and> (generateContent svc question ordered = Returns resp \<and> extractAnswer resp = Inl e \<longrightarrow>
           generateStep cfg svc question ordered indexName esG
             = (ServerError e, esG @ [GenerateContent question ordered]))
        \<and> (generateContent svc question ordered = Returns resp \<and> extractAnswer resp = Inr ans \<longrightarrow>
           generateStep cfg svc question ordered indexName esG
             = (AnalyzeOk ans (map citationOf ordered) indexName,
                esG @ [GenerateContent question ordered]))"
    using generateStep_cases [of cfg svc question ordered gmsg indexName esG resp e ans] by blast
  have 11: "requireClients cfg = None
        \<and> ensureUnlessSkipped cfg svc s (q_skipEnsure p) (resolveIndexName cfg (q_indexName p))
            = (Inr (), esE, sE)
        \<and> q_question p = Some q \<and> q \<noteq> []
        \<and> embedTexts cfg svc [q] = (Inr embeddings, esQ)
        \<and> queryIndex svc (resolveIndexName cfg (q_indexName p)) (getNamespace cfg (q_videoId p))
            (case firstVector embeddings of None \<Rightarrow> [] | Some v \<Rightarrow> v)
            (topKOr (q_topK p) 10 50) = Returns result
      \<longrightarrow>
        (generateContent svc q (sortedMatches (case result of None \<Rightarrow> [] | Some ms \<Rightarrow> ms)) = Throws gmsg
            \<longrightarrow> fst (POST cfg svc s (Analyze p)) = ServerError (ServiceError gmsg))
        \<and> (generateContent svc q (sortedMatches (case result of None \<Rightarrow> [] | Some ms \<Rightarrow> ms)) = Returns resp
             \<and> extractAnswer resp = Inl e
            \<longrightarrow> fst (POST cfg svc s (Analyze p)) = ServerError e)
        \<and> (generateContent svc q (sortedMatches (case result of None \<Rightarrow> [] | Some ms \<Rightarrow> ms)) = Returns resp
             \<and> extractAnswer resp = Inr ans
            \<longrightarrow> fst (POST cfg svc s (Analyze p))
                = AnalyzeOk ans
                    (map citationOf (sortedMatches (case result of None \<Rightarrow> [] | Some ms \<Rightarrow> ms)))
                    (resolveIndexName cfg (q_indexName p)))
        \<and> (fst (POST cfg svc s (Analyze p)) = ServerError err \<longrightarrow>
              (\<exists>m. generateContent svc q (sortedMatches (case result of None \<Rightarrow> [] | Some ms \<Rightarrow> ms))
                      = Throws m \<and> err = ServiceError m)
              \<or> (\<exists>r m. generateContent svc q (sortedMatches (case result of None \<Rightarrow> [] | Some ms \<Rightarrow> ms))
                      = Returns (Some r) \<and> text_method r = Some (Throws m) \<and> err = ServiceError m))"
    using POST_analyze_outcomes [of cfg svc s p esE sE q embeddings esQ result gmsg resp e ans err]
    by blast
  show ?thesis
    using 1 2 3 4 5 6 7 8 9 10 11 by (intro conjI)
qed

theorem analyze_answer_extraction_witness:
  "fst (POST exampleConfig
          (exampleAnswering (Returns (Some \<lparr>text_method = Some (Returns (Some ''yes'')),
                                             first_candidate_parts = None\<rparr>)))
          noAttempts (Analyze exampleQuestion))
     = AnalyzeOk ''yes'' (map citationOf (sortedMatches exampleMatches)) ''video-frames''
   \<and> fst (POST exampleConfig
          (exampleAnswering (Returns (Some \<lparr>text_method = Some (Throws ''blocked''),
                                             first_candidate_parts = None\<rparr>)))
          noAttempts (Analyze exampleQuestion))
     = ServerError (ServiceError ''blocked'')
   \<and> fst (POST exampleConfig (exampleAnswering (Throws ''down'')) noAttempts
            (Analyze exampleQuestion))
     = ServerError (ServiceError ''down'')
   \<and> fst (POST exampleConfig
          (exampleAnswering (Returns (Some \<lparr>text_method = Some (Returns (Some [])),
                                             first_candidate_parts = None\<rparr>)))
          noAttempts (Analyze exampleQuestion))
     = AnalyzeOk [] (map citationOf (sortedMatches exampleMatches)) ''video-frames''
   \<and> fst (POST exampleConfig (exampleAnswering (Returns None)) noAttempts
            (Analyze exampleQuestion))
     = AnalyzeOk [] (map citationOf (sortedMatches exampleMatches)) ''video-frames''
   \<and> fst (POST exampleConfig
          (exampleAnswering (Returns (Some \<lparr>text_method = None,
                                             first_candidate_parts = Some [Some ''a'', None, Some ''b'']\<rparr>)))
          noAttempts (Analyze exampleQuestion))
     = AnalyzeOk [CHR ''a'', CHR 0x0A, CHR 0x0A, CHR ''b'']
         (map citationOf (sortedMatches exampleMatches)) ''video-frames''
   \<and> hasGeminiClient exampleConfig
   \<and> noUsableText (Some \<lparr>text_method = Some (Returns (Some [])), first_candidate_parts = None\<rparr>)
   \<and> generateStep exampleConfig exampleServices ''q'' [] ''video-frames'' []
       = (AnalyzeOk [] [] ''video-frames'', [GenerateContent ''q'' []])
   \<and> generateStep exampleConfig
        (exampleAnswering (Returns (Some \<lparr>text_method = Some (Returns (Some ''yes'')),
                                           first_candidate_parts = None\<rparr>)))
        ''q'' [] ''video-frames'' []
       = (AnalyzeOk ''yes'' [] ''video-frames'', [GenerateContent ''q'' []])
   \<and> generateStep exampleConfig
        (exampleAnswering (Returns (Some \<lparr>text_method = Some (Throws ''blocked''),
                                           first_candidate_parts = None\<rparr>)))
        ''q'' [] ''video-frames'' []
       = (ServerError (ServiceError ''blocked''), [GenerateContent ''q'' []])
   \<and> extractAnswer (Some \<lparr>text_method = Some (Returns (Some ''yes'')), first_candidate_parts = None\<rparr>)
       = Inr ''yes''
   \<and> extractAnswer (Some \<lparr>text_method = None, first_candidate_parts = Some [Some ''a'', None, Some ''b'']\<rparr>)
       = Inr [CHR ''a'', CHR 0x0A, CHR 0x0A, CHR ''b'']
   \<and> extractAnswer (Some \<lparr>text_method = Some (Throws ''blocked''), first_candidate_parts = None\<rparr>)
       = Inl (ServiceError ''blocked'')
   \<and> extractAnswer (Some \<lparr>text_method = Some (Returns None), first_candidate_parts = None\<rparr>)
       = Inr []
   \<and> (\<exists>question ordered resp.
          generateContent exampleServices question ordered = Returns resp
          \<and> extractAnswer resp = Inr [])"
proof -
  have g: "hasGeminiClient exampleConfig"
    by (simp add: hasGeminiClient_def exampleConfig_def)
  have n: "noUsableText (Some \<lparr>text_method = Some (Returns (Some [])), first_candidate_parts = None\<rparr>)"
    by (simp add: noUsableText_def)
  have r: "generateContent exampleServices ''q'' []
             = Returns (Some \<lparr>text_method = Some (Returns (Some [])), first_candidate_parts = None\<rparr>)"
    by (simp add: exampleServices_def)
  have ra: "\<And>out. generateContent (exampleAnswering out) ''q'' [] = out"
    by (simp add: exampleAnswering_def)
  have x1: "extractAnswer (Some \<lparr>text_method = Some (Returns (Some ''yes'')), first_candidate_parts = None\<rparr>)
       = Inr ''yes''"
    using analyze_answer_extraction [where
        r = "\<lparr>text_method = Some (Returns (Some ''yes'')), first_candidate_parts = None\<rparr>"
        and t = "''yes''"]
    by simp
  have x2: "extractAnswer (Some \<lparr>text_method = None, first_candidate_parts = Some [Some ''a'', None, Some ''b'']\<rparr>)
       = Inr [CHR ''a'', CHR 0x0A, CHR 0x0A, CHR ''b'']"
    using analyze_answer_extraction [where
        r = "\<lparr>text_method = None, first_candidate_parts = Some [Some ''a'', None, Some ''b'']\<rparr>"
        and parts = "[Some ''a'', None, Some ''b'']"]
    by (simp add: joinLines_def)
  have x3: "extractAnswer (Some \<lparr>text_method = Some (Throws ''blocked''), first_candidate_parts = None\<rparr>)
       = Inl (ServiceError ''blocked'')"
    using analyze_answer_extraction [where
        r = "\<lparr>text_method = Some (Throws ''blocked''), first_candidate_parts = None\<rparr>"
        and gmsg = "''blocked''"]
    by simp
  have x4: "extractAnswer (Some \<lparr>text_method = Some (Returns None), first_candidate_parts = None\<rparr>)
       = Inr []"
    using analyze_answer_extraction [where
        r = "\<lparr>text_method = Some (Returns None), first_candidate_parts = None\<rparr>"]
    by simp
  have x5: "extractAnswer (Some \<lparr>text_method = Some (Returns (Some [])), first_candidate_parts = None\<rparr>)
       = Inr []"
    using analyze_answer_extraction [where
        r = "\<lparr>text_method = Some (Returns (Some [])), first_candidate_parts = None\<rparr>"
        and t = "[]"]
    by simp
  have x6: "extractAnswer None = Inr []"
    by (rule analyze_answer_extraction [THEN conjunct2, THEN conjunct2, THEN conjunct2,
          THEN conjunct2, THEN conjunct2, THEN conjunct2, THEN conjunct1])
  have s1: "generateStep exampleConfig exampleServices ''q'' [] ''video-frames'' []
       = (AnalyzeOk [] [] ''video-frames'', [GenerateContent ''q'' []])"
    using analyze_answer_extraction [where cfg = exampleConfig and svc = exampleServices
        and resp = "Some \<lparr>text_method = Some (Returns (Some [])), first_candidate_parts = None\<rparr>"
        and question = "''q''" and ordered = "[]" and indexName = "''video-frames''" and esG = "[]"]
      g n r
    by simp
  have s2: "generateStep exampleConfig
        (exampleAnswering (Returns (Some \<lparr>text_method = Some (Returns (Some ''yes'')),
                                           first_candidate_parts = None\<rparr>)))
        ''q'' [] ''video-frames'' []
       = (AnalyzeOk ''yes'' [] ''video-frames'', [GenerateContent ''q'' []])"
    using analyze_answer_extraction [where cfg = exampleConfig
        and svc = "exampleAnswering (Returns (Some \<lparr>text_method = Some (Returns (Some ''yes'')),
                                           first_candidate_parts = None\<rparr>))"
        and resp = "Some \<lparr>text_method = Some (Returns (Some ''yes'')), first_candidate_parts = None\<rparr>"
        and ans = "''yes''"
        and question = "''q''" and ordered = "[]" and indexName = "''video-frames''" and esG = "[]"]
      g
    by (simp add: ra x1)
  have s3: "generateStep exampleConfig
        (exampleAnswering (Returns (Some \<lparr>text_method = Some (Throws ''blocked''),
                                           first_candidate_parts = None\<rparr>)))
        ''q'' [] ''video-frames'' []
       = (ServerError (ServiceError ''blocked''), [GenerateContent ''q'' []])"
    using analyze_answer_extraction [where cfg = exampleConfig
        and svc = "exampleAnswering (Returns (Some \<lparr>text_method = Some (Throws ''blocked''),
                                           first_candidate_parts = None\<rparr>))"
        and resp = "Some \<lparr>text_method = Some (Throws ''blocked''), first_candidate_parts = None\<rparr>"
        and e = "ServiceError ''blocked''"
        and question = "''q''" and ordered = "[]" and indexName = "''video-frames''" and esG = "[]"]
      g
    by (simp add: ra x3)
  have p1: "fst (POST exampleConfig (exampleAnswering (Returns (Some \<lparr>text_method = Some (Returns (Some ''yes'')), first_candidate_parts = None\<rparr>))) noAttempts (Analyze exampleQuestion))
     = AnalyzeOk ''yes'' (map citationOf (sortedMatches exampleMatches)) ''video-frames''"
  proof -
    have "fst (POST exampleConfig (exampleAnswering (Returns (Some \<lparr>text_method = Some (Returns (Some ''yes'')), first_candidate_parts = None\<rparr>))) noAttempts (Analyze exampleQuestion))
       = AnalyzeOk ''yes''
           (map citationOf (sortedMatches (case Some exampleMatches of None \<Rightarrow> [] | Some ms \<Rightarrow> ms)))
           (resolveIndexName exampleConfig (q_indexName exampleQuestion))"
      by (rule analyze_answer_extraction [where cfg = exampleConfig and s = noAttempts
          and p = exampleQuestion and esE = "[]" and sE = noAttempts and q = "''what happens?''"
          and embeddings = "[[1, 2]]"
          and esQ = "[EmbedContent ''what happens?'', ConsoleWarn (DimensionMismatch 3072 2)]"
          and result = "Some exampleMatches"
          and svc = "exampleAnswering (Returns (Some \<lparr>text_method = Some (Returns (Some ''yes'')), first_candidate_parts = None\<rparr>))"
          and resp = "Some \<lparr>text_method = Some (Returns (Some ''yes'')), first_candidate_parts = None\<rparr>" and ans = "''yes''",
          THEN conjunct2, THEN conjunct2, THEN conjunct2, THEN conjunct2, THEN conjunct2,
          THEN conjunct2, THEN conjunct2, THEN conjunct2, THEN conjunct2, THEN conjunct2,
          THEN mp, OF example_answering_reached,
          THEN conjunct2, THEN conjunct2, THEN conjunct1, THEN mp])
        (simp add: example_answering_generate x1)
    then show ?thesis by (simp add: example_question_index)
  qed
  have p2: "fst (POST exampleConfig (exampleAnswering (Returns (Some \<lparr>text_method = Some (Throws ''blocked''), first_candidate_parts = None\<rparr>))) noAttempts (Analyze exampleQuestion))
     = ServerError (ServiceError ''blocked'')"
    by (rule analyze_answer_extraction [where cfg = exampleConfig and s = noAttempts
          and p = exampleQuestion and esE = "[]" and sE = noAttempts and q = "''what happens?''"
          and embeddings = "[[1, 2]]"
          and esQ = "[EmbedContent ''what happens?'', ConsoleWarn (DimensionMismatch 3072 2)]"
          and result = "Some exampleMatches"
          and svc = "exampleAnswering (Returns (Some \<lparr>text_method = Some (Throws ''blocked''), first_candidate_parts = None\<rparr>))"
          and resp = "Some \<lparr>text_method = Some (Throws ''blocked''), first_candidate_parts = None\<rparr>" and e = "ServiceError ''blocked''",
          THEN conjunct2, THEN conjunct2, THEN conjunct2, THEN conjunct2, THEN conjunct2,
          THEN conjunct2, THEN conjunct2, THEN conjunct2, THEN conjunct2, THEN conjunct2,
          THEN mp, OF example_answering_reached,
        THEN conjunct2, THEN conjunct1, THEN mp])
      (simp add: example_answering_generate x3)
  have p3: "fst (POST exampleConfig (exampleAnswering (Throws ''down'')) noAttempts (Analyze exampleQuestion))
     = ServerError (ServiceError ''down'')"
    by (rule analyze_answer_extraction [where cfg = exampleConfig and s = noAttempts
          and p = exampleQuestion and esE = "[]" and sE = noAttempts and q = "''what happens?''"
          and embeddings = "[[1, 2]]"
          and esQ = "[EmbedContent ''what happens?'', ConsoleWarn (DimensionMismatch 3072 2)]"
          and result = "Some exampleMatches"
          and svc = "exampleAnswering (Throws ''down'')"
          and gmsg = "''down''",
          THEN conjunct2, THEN conjunct2, THEN conjunct2, THEN conjunct2, THEN conjunct2,
          THEN conjunct2, THEN conjunct2, THEN conjunct2, THEN conjunct2, THEN conjunct2,
          THEN mp, OF example_answering_reached,
        THEN conjunct1, THEN mp])
      (simp add: example_answering_generate)
  have p4: "fst (POST exampleConfig (exampleAnswering (Returns (Some \<lparr>text_method = Some (Returns (Some [])), first_candidate_parts = None\<rparr>))) noAttempts (Analyze exampleQuestion))
     = AnalyzeOk [] (map citationOf (sortedMatches exampleMatches)) ''video-frames''"
  proof -
    have "fst (POST exampleConfig (exampleAnswering (Returns (Some \<lparr>text_method = Some (Returns (Some [])), first_candidate_parts = None\<rparr>))) noAttempts (Analyze exampleQuestion))
       = AnalyzeOk []
           (map citationOf (sortedMatches (case Some exampleMatches of None \<Rightarrow> [] | Some ms \<Rightarrow> ms)))
           (resolveIndexName exampleConfig (q_indexName exampleQuestion))"
      by (rule analyze_answer_extraction [where cfg = exampleConfig and s = noAttempts
          and p = exampleQuestion and esE = "[]" and sE = noAttempts and q = "''what happens?''"
          and embeddings = "[[1, 2]]"
          and esQ = "[EmbedContent ''what happens?'', ConsoleWarn (DimensionMismatch 3072 2)]"
          and result = "Some exampleMatches"
          and svc = "exampleAnswering (Returns (Some \<lparr>text_method = Some (Returns (Some [])), first_candidate_parts = None\<rparr>))"
          and resp = "Some \<lparr>text_method = Some (Returns (Some [])), first_candidate_parts = None\<rparr>" and ans = "[]",
          THEN conjunct2, THEN conjunct2, THEN conjunct2, THEN conjunct2, THEN conjunct2,
          THEN conjunct2, THEN conjunct2, THEN conjunct2, THEN conjunct2, THEN conjunct2,
          THEN mp, OF example_answering_reached,
          THEN conjunct2, THEN conjunct2, THEN conjunct1, THEN mp])
        (simp add: example_answering_generate x5)
    then show ?thesis by (simp add: example_question_index)
  qed
  have p5: "fst (POST exampleConfig (exampleAnswering (Returns None)) noAttempts (Analyze exampleQuestion))
     = AnalyzeOk [] (map citationOf (sortedMatches exampleMatches)) ''video-frames''"
  proof -
    have "fst (POST exampleConfig (exampleAnswering (Returns None)) noAttempts (Analyze exampleQuestion))
       = AnalyzeOk []
           (map citationOf (sortedMatches (case Some exampleMatches of None \<Rightarrow> [] | Some ms \<Rightarrow> ms)))
           (resolveIndexName exampleConfig (q_indexName exampleQuestion))"
      by (rule analyze_answer_extraction [where cfg = exampleConfig and s = noAttempts
          and p = exampleQuestion and esE = "[]" and sE = noAttempts and q = "''what happens?''"
          and embeddings = "[[1, 2]]"
          and esQ = "[EmbedContent ''what happens?'', ConsoleWarn (DimensionMismatch 3072 2)]"
          and result = "Some exampleMatches"
          and svc = "exampleAnswering (Returns None)"
          and resp = "None" and ans = "[]",
          THEN conjunct2, THEN conjunct2, THEN conjunct2, THEN conjunct2, THEN conjunct2,
          THEN conjunct2, THEN conjunct2, THEN conjunct2, THEN conjunct2, THEN conjunct2,
          THEN mp, OF example_answering_reached,
          THEN conjunct2, THEN conjunct2, THEN conjunct1, THEN mp])
        (simp add: example_answering_generate x6)
    then show ?thesis by (simp add: example_question_index)
  qed
  have p6: "fst (POST exampleConfig (exampleAnswering (Returns (Some \<lparr>text_method = None, first_candidate_parts = Some [Some ''a'', None, Some ''b'']\<rparr>))) noAttempts (Analyze exampleQuestion))
     = AnalyzeOk [CHR ''a'', CHR 0x0A, CHR 0x0A, CHR ''b''] (map citationOf (sortedMatches exampleMatches)) ''video-frames''"
  proof -
    have "fst (POST exampleConfig (exampleAnswering (Returns (Some \<lparr>text_method = None, first_candidate_parts = Some [Some ''a'', None, Some ''b'']\<rparr>))) noAttempts (Analyze exampleQuestion))
       = AnalyzeOk [CHR ''a'', CHR 0x0A, CHR 0x0A, CHR ''b'']
           (map citationOf (sortedMatches (case Some exampleMatches of None \<Rightarrow> [] | Some ms \<Rightarrow> ms)))
           (resolveIndexName exampleConfig (q_indexName exampleQuestion))"
      by (rule analyze_answer_extraction [where cfg = exampleConfig and s = noAttempts
          and p = exampleQuestion and esE = "[]" and sE = noAttempts and q = "''what happens?''"
          and embeddings = "[[1, 2]]"
          and esQ = "[EmbedContent ''what happens?'', ConsoleWarn (DimensionMismatch 3072 2)]"
          and result = "Some exampleMatches"
          and svc = "exampleAnswering (Returns (Some \<lparr>text_method = None, first_candidate_parts = Some [Some ''a'', None, Some ''b'']\<rparr>))"
          and resp = "Some \<lparr>text_method = None, first_candidate_parts = Some [Some ''a'', None, Some ''b'']\<rparr>" and ans = "[CHR ''a'', CHR 0x0A, CHR 0x0A, CHR ''b'']",
          THEN conjunct2, THEN conjunct2, THEN conjunct2, THEN conjunct2, THEN conjunct2,
          THEN conjunct2, THEN conjunct2, THEN conjunct2, THEN conjunct2, THEN conjunct2,
          THEN mp, OF example_answering_reached,
          THEN conjunct2, THEN conjunct2, THEN conjunct1, THEN mp])
        (simp add: example_answering_generate x2)
    then show ?thesis by (simp add: example_question_index)
  qed
  have ex: "\<exists>question ordered resp.
          generateContent exampleServices question ordered = Returns resp
          \<and> extractAnswer resp = Inr []"
  proof -
    have "\<exists>question ordered resp.
          GenerateContent question ordered
            \<in> set [EmbedContent ''what happens?'',
                   ConsoleWarn (DimensionMismatch 3072 2),
                   QueryIndex ''video-frames'' ''video-1'' [1, 2] 10,
                   GenerateContent ''what happens?'' (sortedMatches exampleMatches)]
          \<and> generateContent exampleServices question ordered = Returns resp
          \<and> extractAnswer resp = Inr []"
      by (rule analyze_answer_extraction [where cfg = exampleConfig and svc = exampleServices
          and s = noAttempts and answer = "[]", THEN conjunct1, THEN mp, OF analyze_example])
    then show ?thesis by blast
  qed
  show ?thesis
    using p1 p2 p3 p4 p5 p6 g n s1 s2 s3 x1 x2 x3 x4 ex by (intro conjI)
qed

section \<open>The overview action: results\<close>

lemma overviewBody_cases:
  assumes "embedTexts cfg svc [''overview of this video frames''] = (Inr embeddings, es1)"
  shows "overviewBody cfg svc p indexName =
     (case queryIndex svc indexName (getNamespace cfg (ov_videoId p))
             (case firstVector embeddings of None \<Rightarrow> [] | Some v \<Rightarrow> v)
             (topKOr (ov_topK p) 200 1000) of
        Throws msg \<Rightarrow>
          (ServerError (ServiceError msg),
           [FetchRecords indexName (getNamespace cfg (ov_videoId p))
              [getNamespace cfg (ov_videoId p) @ ''::summary'']]
           @ es1
           @ [QueryIndex indexName (getNamespace cfg (ov_videoId p))
                (case firstVector embeddings of None \<Rightarrow> [] | Some v \<Rightarrow> v)
                (topKOr (ov_topK p) 200 1000)])
      | Returns result \<Rightarrow>
          (OverviewOk (fetchSummary svc indexName (getNamespace cfg (ov_videoId p)))
             (overviewFrames (case result of None \<Rightarrow> [] | Some ms \<Rightarrow> ms))
             indexName (getNamespace cfg (ov_videoId p)),
           [FetchRecords indexName (getNamespace cfg (ov_videoId p))
              [getNamespace cfg (ov_videoId p) @ ''::summary'']]
           @ es1
           @ [QueryIndex indexName (getNamespace cfg (ov_videoId p))
                (case firstVector embeddings of None \<Rightarrow> [] | Some v \<Rightarrow> v)
                (topKOr (ov_topK p) 200 1000)]))"
  using assms by (simp add: overviewBody_def Let_def split: outcome.splits)

lemma overviewBody_ok:
  assumes "overviewBody cfg svc p indexName = (OverviewOk summary frames idx ns, es)"
  shows "\<exists>vec k result.
           QueryIndex indexName ns vec k \<in> set es
           \<and> queryIndex svc indexName ns vec k = Returns result
           \<and> frames = overviewFrames (case result of None \<Rightarrow> [] | Some ms \<Rightarrow> ms)
           \<and> idx = indexName \<and> ns = getNamespace cfg (ov_videoId p)
           \<and> summary = fetchSummary svc indexName ns"
proof -
  obtain er es1 where e: "embedTexts cfg svc [''overview of this video frames''] = (er, es1)"
    by fastforce
  obtain embeddings where er: "er = Inr embeddings"
    using assms e by (cases er) (auto simp: overviewBody_def Let_def)
  define vec where "vec = (case firstVector embeddings of None \<Rightarrow> [] | Some v \<Rightarrow> v)"
  define k where "k = topKOr (ov_topK p) 200 1000"
  define nsp where "nsp = getNamespace cfg (ov_videoId p)"
  note body = overviewBody_cases [OF e [unfolded er], of p indexName, folded vec_def k_def nsp_def]
  obtain result where qr: "queryIndex svc indexName nsp vec k = Returns result"
    using assms body by (cases "queryIndex svc indexName nsp vec k") auto
  have eqs: "summary = fetchSummary svc indexName nsp"
    "frames = overviewFrames (case result of None \<Rightarrow> [] | Some ms \<Rightarrow> ms)"
    "idx = indexName" "ns = nsp"
    "es = [FetchRecords indexName nsp [nsp @ ''::summary'']] @ es1 @ [QueryIndex indexName nsp vec k]"
    using assms body qr by auto
  have m: "QueryIndex indexName ns vec k \<in> set es" using eqs by simp
  show ?thesis
    using m qr eqs unfolding nsp_def by blast
qed

lemma POST_overview_ok:
  assumes "POST cfg svc s (Overview p) = (OverviewOk summary frames idx ns, es, s')"
  shows "\<exists>vec k result.
           QueryIndex idx ns vec k \<in> set es
           \<and> queryIndex svc idx ns vec k = Returns result
           \<and> frames = overviewFrames (case result of None \<Rightarrow> [] | Some ms \<Rightarrow> ms)
           \<and> summary = fetchSummary svc idx ns"
proof -
  let ?idx = "resolveIndexName cfg (ov_indexName p)"
  have a: "afterEnsure (ensureUnlessSkipped cfg svc s (ov_skipEnsure p) ?idx)
             (overviewBody cfg svc p ?idx) = (OverviewOk summary frames idx ns, es, s')"
    using assms by (simp add: POST_def postOverview_def Let_def split: option.splits)
  from afterEnsure_response [OF a]
  obtain es0 where b: "fst (overviewBody cfg svc p ?idx) = OverviewOk summary frames idx ns"
    and es: "es = es0 @ snd (overviewBody cfg svc p ?idx)" by auto
  then have "overviewBody cfg svc p ?idx
               = (OverviewOk summary frames idx ns, snd (overviewBody cfg svc p ?idx))"
    by (metis prod.collapse)
  from overviewBody_ok [OF this] obtain vec k result where
    f: "QueryIndex ?idx ns vec k \<in> set (snd (overviewBody cfg svc p ?idx))"
      "queryIndex svc ?idx ns vec k = Returns result"
      "frames = overviewFrames (case result of None \<Rightarrow> [] | Some ms \<Rightarrow> ms)"
      "idx = ?idx"
      "summary = fetchSummary svc ?idx ns"
    by blast
  have "QueryIndex idx ns vec k \<in> set es" using f(1,4) es by auto
  then show ?thesis using f by blast
qed

lemma overviewFrames_mset:
  "mset (overviewFrames ms) = mset (filter (\<lambda>f. isNumber (o_timestamp f)) (map overviewFrameOf ms))"
  by (simp add: overviewFrames_def)

lemma overviewFrames_sorted: "sorted (map overviewTime (overviewFrames ms))"
  by (simp add: overviewFrames_def)

lemma overviewFrames_numeric:
  assumes "f \<in> set (overviewFrames ms)"
  shows "o_timestamp f = JNum (overviewTime f)"
proof -
  have "isNumber (o_timestamp f)" using assms by (simp add: overviewFrames_def)
  then show ?thesis by (cases "o_timestamp f") (auto simp: overviewTime_def)
qed

lemma summaryVector_no_timestamp:
  "\<not> isNumber (field (v_metadata (summaryVector cfg videoId text vec)) ''timestamp'')"
  by (simp add: summaryVector_def field_def)

lemma manifestVector_no_timestamp:
  "\<not> isNumber (field (v_metadata (manifestVector cfg videoId videoFilename frames vec)) ''timestamp'')"
  by (simp add: manifestVector_def field_def filenameField_def split: option.splits)

lemma overviewFrames_excludes:
  assumes "\<not> isNumber (metadataField m ''timestamp'')"
  shows "overviewFrameOf m \<notin> set (overviewFrames ms)"
proof
  assume "overviewFrameOf m \<in> set (overviewFrames ms)"
  then have "isNumber (o_timestamp (overviewFrameOf m))" by (simp add: overviewFrames_def)
  then show False using assms by (simp add: overviewFrameOf_def)
qed

lemma fetchSummary_failure:
  "fetchRecords svc indexName namespace (namespace @ ''::summary'') = Throws msg \<Longrightarrow>
   fetchSummary svc indexName namespace = JUndefined"
  by (simp add: fetchSummary_def)

lemma POST_overview_fetch_failure:
  assumes "requireClients cfg = None"
    and "ensureUnlessSkipped cfg svc s (ov_skipEnsure p) (resolveIndexName cfg (ov_indexName p))
           = (Inr (), es0, s')"
    and "fetchRecords svc (resolveIndexName cfg (ov_indexName p)) (getNamespace cfg (ov_videoId p))
           (getNamespace cfg (ov_videoId p) @ ''::summary'') = Throws msg"
    and "embedTexts cfg svc [''overview of this video frames''] = (Inr embeddings, es1)"
    and "queryIndex svc (resolveIndexName cfg (ov_indexName p)) (getNamespace cfg (ov_videoId p))
           (case firstVector embeddings of None \<Rightarrow> [] | Some v \<Rightarrow> v)
           (topKOr (ov_topK p) 200 1000) = Returns result"
  shows "fst (POST cfg svc s (Overview p))
         = OverviewOk JUndefined (overviewFrames (case result of None \<Rightarrow> [] | Some ms \<Rightarrow> ms))
             (resolveIndexName cfg (ov_indexName p)) (getNamespace cfg (ov_videoId p))"
  using assms overviewBody_cases [OF assms(4), of p "resolveIndexName cfg (ov_indexName p)"]
  by (simp add: POST_def postOverview_def afterEnsure_def fetchSummary_failure Let_def)

lemma overviewFrameOf_fields:
  "o_id (overviewFrameOf m) = m_id m
   \<and> o_score (overviewFrameOf m) = m_score m
   \<and> o_frame_id (overviewFrameOf m) = metadataField m ''frame_id''
   \<and> o_timestamp (overviewFrameOf m) = metadataField m ''timestamp''
   \<and> o_description (overviewFrameOf m) = metadataField m ''description''
   \<and> o_path (overviewFrameOf m) = metadataField m ''path''"
  by (simp add: overviewFrameOf_def)

lemma metadataField_reads:
  "metadataField m k =
     (case m_metadata m of
        None \<Rightarrow> JUndefined
      | Some md \<Rightarrow> (case map_of md k of None \<Rightarrow> JUndefined | Some v \<Rightarrow> v))"
  by (simp add: metadataField_def field_def split: option.splits)

lemma numeric_filter_map:
  "filter (\<lambda>f. isNumber (o_timestamp f)) (map overviewFrameOf ms)
   = map overviewFrameOf (filter (\<lambda>m. isNumber (metadataField m ''timestamp'')) ms)"
  by (induction ms) (simp_all add: overviewFrameOf_def)

lemma overviewFrames_image_mset:
  "mset (overviewFrames ms)
   = image_mset overviewFrameOf (filter_mset (\<lambda>m. isNumber (metadataField m ''timestamp'')) (mset ms))"
  by (simp add: overviewFrames_def numeric_filter_map)

lemma overviewFrames_set_eq:
  "set (overviewFrames ms)
   = overviewFrameOf ` {m \<in> set ms. isNumber (metadataField m ''timestamp'')}"
  by (simp add: overviewFrames_def numeric_filter_map)

lemma overviewFrames_includes:
  "m \<in> set ms \<Longrightarrow> isNumber (metadataField m ''timestamp'') \<Longrightarrow>
   overviewFrameOf m \<in> set (overviewFrames ms)"
  by (simp add: overviewFrames_set_eq)

lemma overviewFrames_origin:
  "f \<in> set (overviewFrames ms) \<Longrightarrow>
   \<exists>m \<in> set ms. f = overviewFrameOf m \<and> isNumber (metadataField m ''timestamp'')"
  by (auto simp: overviewFrames_set_eq)

lemma overviewFrames_length:
  "length (overviewFrames ms) = length (filter (\<lambda>m. isNumber (metadataField m ''timestamp'')) ms)"
  by (simp add: overviewFrames_def numeric_filter_map)

lemma overviewFrames_stable:
  "filter (\<lambda>f. overviewTime f = t) (overviewFrames ms)
   = map overviewFrameOf
       (filter (\<lambda>m. metadataField m ''timestamp'' = JNum t) ms)"
proof -
  have "filter (\<lambda>f. overviewTime f = t) (overviewFrames ms)
        = filter (\<lambda>f. overviewTime f = t)
            (map overviewFrameOf (filter (\<lambda>m. isNumber (metadataField m ''timestamp'')) ms))"
    by (simp add: overviewFrames_def numeric_filter_map sort_key_stable)
  also have "\<dots> = map overviewFrameOf
        (filter (\<lambda>m. overviewTime (overviewFrameOf m) = t \<and> isNumber (metadataField m ''timestamp'')) ms)"
    by (simp add: filter_map o_def conj_commute)
  also have "(\<lambda>m. overviewTime (overviewFrameOf m) = t \<and> isNumber (metadataField m ''timestamp''))
             = (\<lambda>m. metadataField m ''timestamp'' = JNum t)"
  proof
    fix m
    show "(overviewTime (overviewFrameOf m) = t \<and> isNumber (metadataField m ''timestamp''))
          = (metadataField m ''timestamp'' = JNum t)"
      by (cases "metadataField m ''timestamp''")
         (auto simp: overviewTime_def overviewFrameOf_def)
  qed
  finally show ?thesis .
qed

lemma isNumber_iff: "isNumber v \<longleftrightarrow> (\<exists>r. v = JNum r)"
  by (cases v) auto

lemma fetchSummary_reads:
  "(fetchRecords svc indexName namespace (namespace @ ''::summary'') = Returns None \<longrightarrow>
      fetchSummary svc indexName namespace = JUndefined)
   \<and> (fetchRecords svc indexName namespace (namespace @ ''::summary'') = Returns (Some md) \<longrightarrow>
      fetchSummary svc indexName namespace
        = (if \<not> nullish (field md ''text'') then field md ''text''
           else if \<not> nullish (field md ''summary'') then field md ''summary''
           else JUndefined))"
  by (auto simp: fetchSummary_def orElse_def nullish_def)

lemma overview_example:
  "POST exampleConfig exampleServices noAttempts
     (Overview \<lparr>ov_indexName = None, ov_videoId = Some (IdNum 1), ov_topK = None, ov_skipEnsure = True\<rparr>)
   = (OverviewOk JUndefined
        (map overviewFrameOf [frameMatch ''a'' 1, frameMatch ''b'' 3, frameMatch ''c'' 5])
        ''video-frames'' ''video-1'',
      [FetchRecords ''video-frames'' ''video-1'' [''video-1::summary''],
       EmbedContent ''overview of this video frames'',
       ConsoleWarn (DimensionMismatch 3072 2),
       QueryIndex ''video-frames'' ''video-1'' [1, 2] 200],
      noAttempts)"
  by (simp add: example_defs postOverview_def overviewBody_def fetchSummary_def
        overviewFrames_def overviewFrameOf_def metadataField_def overviewTime_def
        exampleMatches_def frameMatch_def manifestMatch_def field_def)



text \<open>
  Claim C5. When the overview action answers, its frames are \<open>overviewFrames\<close> of the
  matches of the store: exactly the matches whose metadata has a numeric timestamp, in
  ascending order of the timestamp. A match without a numeric timestamp is left out, and
  the metadata of the summary vector and of the manifest vector have none. When the
  fetch of the summary vector throws, the summary is undefined and the action answers as
  it does otherwise. Every match with a numeric timestamp is in the list, once for each
  time the store returned it, as the frame with its identifier, its score and the four
  metadata fields read from it; every frame of the list is such a match; matches with
  the same timestamp keep the order of the store. A summary that is fetched is its
  \<^verbatim>\<open>text\<close>, else its \<^verbatim>\<open>summary\<close> field.
\<close>

theorem overview_frames_and_summary:
  "(POST cfg svc s (Overview p) = (OverviewOk summary frames idx ns, es, s') \<longrightarrow>
      (\<exists>vec k result.
          QueryIndex idx ns vec k \<in> set es
          \<and> queryIndex svc idx ns vec k = Returns result
          \<and> frames = overviewFrames (case result of None \<Rightarrow> [] | Some ms \<Rightarrow> ms)
          \<and> summary = fetchSummary svc idx ns))
   \<and> mset (overviewFrames ms)
       = mset (filter (\<lambda>f. isNumber (o_timestamp f)) (map overviewFrameOf ms))
   \<and> sorted (map overviewTime (overviewFrames ms))
   \<and> (\<forall>f \<in> set (overviewFrames ms). o_timestamp f = JNum (overviewTime f))
   \<and> (\<not> isNumber (metadataField m ''timestamp'') \<longrightarrow> overviewFrameOf m \<notin> set (overviewFrames ms))
   \<and> \<not> isNumber (field (v_metadata (summaryVector cfg videoId text sumVec)) ''timestamp'')
   \<and> \<not> isNumber (field (v_metadata (manifestVector cfg videoId videoFilename fs manVec)) ''timestamp'')
   \<and> (requireClients cfg = None
        \<and> ensureUnlessSkipped cfg svc s (ov_skipEnsure p) (resolveIndexName cfg (ov_indexName p))
            = (Inr (), es0, s1)
        \<and> fetchRecords svc (resolveIndexName cfg (ov_indexName p)) (getNamespace cfg (ov_videoId p))
            (getNamespace cfg (ov_videoId p) @ ''::summary'') = Throws msg
        \<and> embedTexts cfg svc [''overview of this video frames''] = (Inr embeddings, es1)
        \<and> queryIndex svc (resolveIndexName cfg (ov_indexName p)) (getNamespace cfg (ov_videoId p))
            (case firstVector embeddings of None \<Rightarrow> [] | Some v \<Rightarrow> v)
            (topKOr (ov_topK p) 200 1000) = Returns result
      \<longrightarrow> fst (POST cfg svc s (Overview p))
            = OverviewOk JUndefined (overviewFrames (case result of None \<Rightarrow> [] | Some ms \<Rightarrow> ms))
                (resolveIndexName cfg (ov_indexName p)) (getNamespace cfg (ov_videoId p)))
   \<and> (o_id (overviewFrameOf m) = m_id m
       \<and> o_score (overviewFrameOf m) = m_score m
       \<and> o_frame_id (overviewFrameOf m) = metadataField m ''frame_id''
       \<and> o_timestamp (overviewFrameOf m) = metadataField m ''timestamp''
       \<and> o_description (overviewFrameOf m) = metadataField m ''description''
       \<and> o_path (overviewFrameOf m) = metadataField m ''path'')
   \<and> metadataField m key =
       (case m_metadata m of
          None \<Rightarrow> JUndefined
        | Some md \<Rightarrow> (case map_of md key of None \<Rightarrow> JUndefined | Some v \<Rightarrow> v))
   \<and> (isNumber val \<longleftrightarrow> (\<exists>r. val = JNum r))
   \<and> (m \<in> set ms \<and> isNumber (metadataField m ''timestamp'')
        \<longrightarrow> overviewFrameOf m \<in> set (overviewFrames ms))
   \<and> (\<forall>f \<in> set (overviewFrames ms).
         \<exists>x \<in> set ms. f = overviewFrameOf x \<and> isNumber (metadataField x ''timestamp''))
   \<and> mset (overviewFrames ms)
       = image_mset overviewFrameOf
           (filter_mset (\<lambda>x. isNumber (metadataField x ''timestamp'')) (mset ms))
   \<and> length (overviewFrames ms)
       = length (filter (\<lambda>x. isNumber (metadataField x ''timestamp'')) ms)
   \<and> filter (\<lambda>f. overviewTime f = t) (overviewFrames ms)
       = map overviewFrameOf (filter (\<lambda>x. metadataField x ''timestamp'' = JNum t) ms)
   \<and> ((fetchRecords svc indexName namespace (namespace @ ''::summary'') = Returns None \<longrightarrow>
          fetchSummary svc indexName namespace = JUndefined)
       \<and> (fetchRecords svc indexName namespace (namespace @ ''::summary'') = Returns (Some smd) \<longrightarrow>
          fetchSummary svc indexName namespace
            = (if \<not> nullish (field smd ''text'') then field smd ''text''
               else if \<not> nullish (field smd ''summary'') then field smd ''summary''
               else JUndefined)))"
proof (intro conjI)
  show "o_id (overviewFrameOf m) = m_id m"
    and "o_score (overviewFrameOf m) = m_score m"
    and "o_frame_id (overviewFrameOf m) = metadataField m ''frame_id''"
    and "o_timestamp (overviewFrameOf m) = metadataField m ''timestamp''"
    and "o_description (overviewFrameOf m) = metadataField m ''description''"
    and "o_path (overviewFrameOf m) = metadataField m ''path''"
    using overviewFrameOf_fields [of m] by simp_all
  show "metadataField m key =
       (case m_metadata m of
          None \<Rightarrow> JUndefined
        | Some md \<Rightarrow> (case map_of md key of None \<Rightarrow> JUndefined | Some v \<Rightarrow> v))"
    by (rule metadataField_reads)
  show "isNumber val \<longleftrightarrow> (\<exists>r. val = JNum r)"
    by (rule isNumber_iff)
  show "m \<in> set ms \<and> isNumber (metadataField m ''timestamp'')
        \<longrightarrow> overviewFrameOf m \<in> set (overviewFrames ms)"
    using overviewFrames_includes by blast
  show "\<forall>f \<in> set (overviewFrames ms).
         \<exists>x \<in> set ms. f = overviewFrameOf x \<and> isNumber (metadataField x ''timestamp'')"
    using overviewFrames_origin by blast
  show "mset (overviewFrames ms)
       = image_mset overviewFrameOf
           (filter_mset (\<lambda>x. isNumber (metadataField x ''timestamp'')) (mset ms))"
    by (rule overviewFrames_image_mset)
  show "length (overviewFrames ms)
       = length (filter (\<lambda>x. isNumber (metadataField x ''timestamp'')) ms)"
    by (rule overviewFrames_length)
  show "filter (\<lambda>f. overviewTime f = t) (overviewFrames ms)
       = map overviewFrameOf (filter (\<lambda>x. metadataField x ''timestamp'' = JNum t) ms)"
    by (rule overviewFrames_stable)
  show "fetchRecords svc indexName namespace (namespace @ ''::summary'') = Returns None \<longrightarrow>
          fetchSummary svc indexName namespace = JUndefined"
    and "fetchRecords svc indexName namespace (namespace @ ''::summary'') = Returns (Some smd) \<longrightarrow>
          fetchSummary svc indexName namespace
            = (if \<not> nullish (field smd ''text'') then field smd ''text''
               else if \<not> nullish (field smd ''summary'') then field smd ''summary''
               else JUndefined)"
    using fetchSummary_reads [of svc indexName namespace smd] by blast+
  show "POST cfg svc s (Overview p) = (OverviewOk summary frames idx ns, es, s') \<longrightarrow>
      (\<exists>vec k result.
          QueryIndex idx ns vec k \<in> set es
          \<and> queryIndex svc idx ns vec k = Returns result
          \<and> frames = overviewFrames (case result of None \<Rightarrow> [] | Some ms \<Rightarrow> ms)
          \<and> summary = fetchSummary svc idx ns)"
    using POST_overview_ok [of cfg svc s p summary frames idx ns es s'] by blast
  show "mset (overviewFrames ms)
       = mset (filter (\<lambda>f. isNumber (o_timestamp f)) (map overviewFrameOf ms))"
    by (rule overviewFrames_mset)
  show "sorted (map overviewTime (overviewFrames ms))"
    by (rule overviewFrames_sorted)
  show "\<forall>f \<in> set (overviewFrames ms). o_timestamp f = JNum (overviewTime f)"
    using overviewFrames_numeric by blast
  show "\<not> isNumber (metadataField m ''timestamp'') \<longrightarrow> overviewFrameOf m \<notin> set (overviewFrames ms)"
    using overviewFrames_excludes by blast
  show "\<not> isNumber (field (v_metadata (summaryVector cfg videoId text sumVec)) ''timestamp'')"
    by (rule summaryVector_no_timestamp)
  show "\<not> isNumber (field (v_metadata (manifestVector cfg videoId videoFilename fs manVec)) ''timestamp'')"
    by (rule manifestVector_no_timestamp)
  show "requireClients cfg = None
        \<and> ensureUnlessSkipped cfg svc s (ov_skipEnsure p) (resolveIndexName cfg (ov_indexName p))
            = (Inr (), es0, s1)
        \<and> fetchRecords svc (resolveIndexName cfg (ov_indexName p)) (getNamespace cfg (ov_videoId p))
            (getNamespace cfg (ov_videoId p) @ ''::summary'') = Throws msg
        \<and> embedTexts cfg svc [''overview of this video frames''] = (Inr embeddings, es1)
        \<and> queryIndex svc (resolveIndexName cfg (ov_indexName p)) (getNamespace cfg (ov_videoId p))
            (case firstVector embeddings of None \<Rightarrow> [] | Some v \<Rightarrow> v)
            (topKOr (ov_topK p) 200 1000) = Returns result
      \<longrightarrow> fst (POST cfg svc s (Overview p))
            = OverviewOk JUndefined (overviewFrames (case result of None \<Rightarrow> [] | Some ms \<Rightarrow> ms))
                (resolveIndexName cfg (ov_indexName p)) (getNamespace cfg (ov_videoId p))"
    using POST_overview_fetch_failure [of cfg svc s p es0 s1 msg embeddings es1 result] by blast
qed

theorem overview_frames_and_summary_witness:
  "POST exampleConfig exampleServices noAttempts
     (Overview \<lparr>ov_indexName = None, ov_videoId = Some (IdNum 1), ov_topK = None, ov_skipEnsure = True\<rparr>)
   = (OverviewOk JUndefined
        (map overviewFrameOf [frameMatch ''a'' 1, frameMatch ''b'' 3, frameMatch ''c'' 5])
        ''video-frames'' ''video-1'',
      [FetchRecords ''video-frames'' ''video-1'' [''video-1::summary''],
       EmbedContent ''overview of this video frames'',
       ConsoleWarn (DimensionMismatch 3072 2),
       QueryIndex ''video-frames'' ''video-1'' [1, 2] 200],
      noAttempts)
   \<and> fetchRecords exampleServices ''video-frames'' ''video-1'' ''video-1::summary'' = Throws ''unavailable''
   \<and> \<not> isNumber (metadataField manifestMatch ''timestamp'')
   \<and> overviewFrameOf manifestMatch \<notin> set (overviewFrames exampleMatches)
   \<and> fst (POST exampleConfig exampleServices noAttempts
             (Overview \<lparr>ov_indexName = None, ov_videoId = Some (IdNum 1), ov_topK = None,
                         ov_skipEnsure = True\<rparr>))
       = OverviewOk JUndefined (overviewFrames exampleMatches)
           (resolveIndexName exampleConfig None) (getNamespace exampleConfig (Some (IdNum 1)))
   \<and> (\<exists>vec k result.
         queryIndex exampleServices ''video-frames'' ''video-1'' vec k = Returns result
         \<and> map overviewFrameOf [frameMatch ''a'' 1, frameMatch ''b'' 3, frameMatch ''c'' 5]
            = overviewFrames (case result of None \<Rightarrow> [] | Some ms \<Rightarrow> ms))
   \<and> frameMatch ''a'' 1 \<in> set exampleMatches
   \<and> isNumber (metadataField (frameMatch ''a'' 1) ''timestamp'')
   \<and> overviewFrameOf (frameMatch ''a'' 1) \<in> set (overviewFrames exampleMatches)
   \<and> o_id (overviewFrameOf (frameMatch ''a'' 1)) = ''a''
   \<and> o_timestamp (overviewFrameOf (frameMatch ''a'' 1)) = JNum 1
   \<and> length (overviewFrames exampleMatches) = 3"
proof -
  have f: "fetchRecords exampleServices ''video-frames'' ''video-1'' ''video-1::summary''
             = Throws ''unavailable''"
    by (simp add: exampleServices_def)
  have n: "\<not> isNumber (metadataField manifestMatch ''timestamp'')"
    by (simp add: metadataField_def manifestMatch_def field_def)
  note t = overview_frames_and_summary [of exampleConfig exampleServices noAttempts
      "\<lparr>ov_indexName = None, ov_videoId = Some (IdNum 1), ov_topK = None, ov_skipEnsure = True\<rparr>"
      JUndefined "map overviewFrameOf [frameMatch ''a'' 1, frameMatch ''b'' 3, frameMatch ''c'' 5]"
      "''video-frames''" "''video-1''"
      "[FetchRecords ''video-frames'' ''video-1'' [''video-1::summary''],
       EmbedContent ''overview of this video frames'',
       ConsoleWarn (DimensionMismatch 3072 2),
       QueryIndex ''video-frames'' ''video-1'' [1, 2] 200]"
      noAttempts exampleMatches manifestMatch]
  have x: "overviewFrameOf manifestMatch \<notin> set (overviewFrames exampleMatches)"
    using t [THEN conjunct2, THEN conjunct2, THEN conjunct2, THEN conjunct2, THEN conjunct1] n by blast
  have q: "\<exists>vec k result.
         queryIndex exampleServices ''video-frames'' ''video-1'' vec k = Returns result
         \<and> map overviewFrameOf [frameMatch ''a'' 1, frameMatch ''b'' 3, frameMatch ''c'' 5]
            = overviewFrames (case result of None \<Rightarrow> [] | Some ms \<Rightarrow> ms)"
    using t [THEN conjunct1] overview_example by blast
  have h1: "requireClients exampleConfig = None"
    by (simp add: example_defs)
  have h2: "ensureUnlessSkipped exampleConfig exampleServices noAttempts
              (ov_skipEnsure \<lparr>ov_indexName = None, ov_videoId = Some (IdNum 1), ov_topK = None,
                              ov_skipEnsure = True\<rparr>)
              (resolveIndexName exampleConfig
                (ov_indexName \<lparr>ov_indexName = None, ov_videoId = Some (IdNum 1), ov_topK = None,
                                ov_skipEnsure = True\<rparr>))
            = (Inr (), [], noAttempts)"
    by (simp add: ensureUnlessSkipped_def)
  have h3: "fetchRecords exampleServices
              (resolveIndexName exampleConfig
                (ov_indexName \<lparr>ov_indexName = None, ov_videoId = Some (IdNum 1), ov_topK = None,
                                ov_skipEnsure = True\<rparr>))
              (getNamespace exampleConfig
                (ov_videoId \<lparr>ov_indexName = None, ov_videoId = Some (IdNum 1), ov_topK = None,
                              ov_skipEnsure = True\<rparr>))
              (getNamespace exampleConfig
                (ov_videoId \<lparr>ov_indexName = None, ov_videoId = Some (IdNum 1), ov_topK = None,
                              ov_skipEnsure = True\<rparr>) @ ''::summary'')
            = Throws ''unavailable''"
    by (simp add: exampleServices_def)
  have h4: "embedTexts exampleConfig exampleServices [''overview of this video frames'']
            = (Inr [[1, 2]],
               [EmbedContent ''overview of this video frames'', ConsoleWarn (DimensionMismatch 3072 2)])"
    by (simp add: example_defs)
  have h5: "queryIndex exampleServices
              (resolveIndexName exampleConfig
                (ov_indexName \<lparr>ov_indexName = None, ov_videoId = Some (IdNum 1), ov_topK = None,
                                ov_skipEnsure = True\<rparr>))
              (getNamespace exampleConfig
                (ov_videoId \<lparr>ov_indexName = None, ov_videoId = Some (IdNum 1), ov_topK = None,
                              ov_skipEnsure = True\<rparr>))
              (case firstVector [[1, 2]] of None \<Rightarrow> [] | Some v \<Rightarrow> v)
              (topKOr (ov_topK \<lparr>ov_indexName = None, ov_videoId = Some (IdNum 1), ov_topK = None,
                                 ov_skipEnsure = True\<rparr>) 200 1000)
            = Returns (Some exampleMatches)"
    by (simp add: exampleServices_def)
  have w: "fst (POST exampleConfig exampleServices noAttempts
             (Overview \<lparr>ov_indexName = None, ov_videoId = Some (IdNum 1), ov_topK = None,
                         ov_skipEnsure = True\<rparr>))
           = OverviewOk JUndefined (overviewFrames exampleMatches)
               (resolveIndexName exampleConfig None) (getNamespace exampleConfig (Some (IdNum 1)))"
    using overview_frames_and_summary [of exampleConfig exampleServices noAttempts
      "\<lparr>ov_indexName = None, ov_videoId = Some (IdNum 1), ov_topK = None, ov_skipEnsure = True\<rparr>"
      _ _ _ _ _ _ _ _ _ _ _ _ _ _ "[]" noAttempts "''unavailable''" "[[1, 2]]"
      "[EmbedContent ''overview of this video frames'', ConsoleWarn (DimensionMismatch 3072 2)]"
      "Some exampleMatches", THEN conjunct2, THEN conjunct2, THEN conjunct2, THEN conjunct2, THEN conjunct2, THEN conjunct2, THEN conjunct2, THEN conjunct1] h1 h2 h3 h4 h5
    by simp
  note u = overview_frames_and_summary [where m = "frameMatch ''a'' 1" and ms = exampleMatches,
      THEN conjunct2, THEN conjunct2, THEN conjunct2, THEN conjunct2, THEN conjunct2, THEN conjunct2, THEN conjunct2, THEN conjunct2]
  have i1: "frameMatch ''a'' 1 \<in> set exampleMatches"
    by (simp add: exampleMatches_def)
  have i2: "isNumber (metadataField (frameMatch ''a'' 1) ''timestamp'')"
    by (simp add: metadataField_def frameMatch_def field_def)
  have i3: "overviewFrameOf (frameMatch ''a'' 1) \<in> set (overviewFrames exampleMatches)"
    using u [THEN conjunct2, THEN conjunct2, THEN conjunct2, THEN conjunct1] i1 i2 by blast
  have i4: "o_id (overviewFrameOf (frameMatch ''a'' 1)) = ''a''"
    using u [THEN conjunct1, THEN conjunct1] by (simp add: frameMatch_def)
  have i5: "o_timestamp (overviewFrameOf (frameMatch ''a'' 1)) = JNum 1"
    using u [THEN conjunct1, THEN conjunct2, THEN conjunct2, THEN conjunct2, THEN conjunct1]
    by (simp add: metadataField_def frameMatch_def field_def)
  have i6: "length (overviewFrames exampleMatches) = 3"
    using u [THEN conjunct2, THEN conjunct2, THEN conjunct2, THEN conjunct2, THEN conjunct2, THEN conjunct2, THEN conjunct1]
    by (simp add: exampleMatches_def metadataField_def frameMatch_def manifestMatch_def field_def)
  show ?thesis using overview_example f n x q w i1 i2 i3 i4 i5 i6 by blast
qed

section \<open>The final ingestion: results\<close>

lemma finalFrameVectors_length:
  "length (finalFrameVectors cfg videoId videoFilename frames embeddings) = length frames"
  by (simp add: finalFrameVectors_def)

lemma summaryStep_length:
  assumes "fst (summaryStep cfg svc videoId summary) = Inr svs"
  shows "length svs = (if summaryGiven summary then 1 else 0)"
proof (cases "summaryGiven summary")
  case True
  obtain r es where e: "embedTexts cfg svc [case summary of None \<Rightarrow> [] | Some t \<Rightarrow> t] = (r, es)"
    by fastforce
  show ?thesis
    using assms True e by (cases r) (auto simp: summaryStep_def Let_def)
next
  case False
  then show ?thesis using assms by (simp add: summaryStep_def)
qed

lemma manifestStep_built:
  assumes "fst (embedTexts cfg svc [''manifest video '' @ videoIdString videoId]) = Inr vs"
  shows "length (fst (manifestStep cfg svc videoId videoFilename frames)) = 1"
  using assms
  by (cases "embedTexts cfg svc [''manifest video '' @ videoIdString videoId]")
     (simp add: manifestStep_def)

lemma manifestStep_swallowed:
  assumes "fst (embedTexts cfg svc [''manifest video '' @ videoIdString videoId]) = Inl e"
  shows "manifestStep cfg svc videoId videoFilename frames
         = ([], snd (embedTexts cfg svc [''manifest video '' @ videoIdString videoId])
                @ [ConsoleWarn (ManifestVectorFailed e)])"
  using assms
  by (cases "embedTexts cfg svc [''manifest video '' @ videoIdString videoId]")
     (simp add: manifestStep_def)

lemma manifestStep_length:
  "length (fst (manifestStep cfg svc videoId videoFilename frames))
   = (if \<exists>vs. fst (embedTexts cfg svc [''manifest video '' @ videoIdString videoId]) = Inr vs
      then 1 else 0)"
proof (cases "fst (embedTexts cfg svc [''manifest video '' @ videoIdString videoId])")
  case (Inl e)
  then show ?thesis by (simp add: manifestStep_swallowed)
next
  case (Inr vs)
  then show ?thesis using manifestStep_built [OF Inr] by simp
qed

lemma summaryGiven_iff:
  "summaryGiven summary \<longleftrightarrow> (\<exists>t. summary = Some t \<and> (\<exists>c \<in> set t. \<not> isWhitespace c))"
proof -
  have "\<And>t. (dropWhile isWhitespace (rev (dropWhile isWhitespace t)) \<noteq> [])
             = (\<exists>c \<in> set t. \<not> isWhitespace c)"
  proof -
    fix t
    have "(dropWhile isWhitespace (rev (dropWhile isWhitespace t)) \<noteq> [])
            = (\<exists>c \<in> set (dropWhile isWhitespace t). \<not> isWhitespace c)"
      by simp
    also have "\<dots> = (\<exists>c \<in> set t. \<not> isWhitespace c)"
    proof
      assume "\<exists>c \<in> set (dropWhile isWhitespace t). \<not> isWhitespace c"
      then show "\<exists>c \<in> set t. \<not> isWhitespace c" by (meson set_dropWhileD)
    next
      assume "\<exists>c \<in> set t. \<not> isWhitespace c"
      then have "dropWhile isWhitespace t \<noteq> []" by simp
      then have "\<not> isWhitespace (hd (dropWhile isWhitespace t))" by (rule hd_dropWhile)
      moreover have "hd (dropWhile isWhitespace t) \<in> set (dropWhile isWhitespace t)"
        using \<open>dropWhile isWhitespace t \<noteq> []\<close> by (rule hd_in_set)
      ultimately show "\<exists>c \<in> set (dropWhile isWhitespace t). \<not> isWhitespace c" by blast
    qed
    finally show "(dropWhile isWhitespace (rev (dropWhile isWhitespace t)) \<noteq> [])
             = (\<exists>c \<in> set t. \<not> isWhitespace c)" .
  qed
  then show ?thesis
    by (auto simp: summaryGiven_def trim_def split: option.splits)
qed

lemma finalIngestBody_cases:
  assumes "length (finalFrames p) \<noteq> 0"
    and "embedTexts cfg svc (descriptionsOf (finalFrames p)) = (Inr embeddings, es1)"
    and "summaryStep cfg svc (fin_videoId p) (fin_summary p) = (Inr svs, es2)"
    and "manifestStep cfg svc (fin_videoId p) (fin_videoFilename p) (finalFrames p) = (mvs, es3)"
  shows "finalIngestBody cfg svc p indexName =
     (case upsert svc indexName (getNamespace cfg (fin_videoId p))
             (finalFrameVectors cfg (fin_videoId p) (fin_videoFilename p) (finalFrames p) embeddings
              @ svs @ mvs) of
        Throws msg \<Rightarrow>
          (ServerError (ServiceError msg),
           es1 @ es2 @ es3 @
           [Upsert indexName (getNamespace cfg (fin_videoId p))
              (finalFrameVectors cfg (fin_videoId p) (fin_videoFilename p) (finalFrames p) embeddings
               @ svs @ mvs)])
      | Returns u \<Rightarrow>
          (FinalIngestOk (length (finalFrames p) + length (svs @ mvs))
             (getNamespace cfg (fin_videoId p)) indexName (length (svs @ mvs) \<noteq> 0),
           es1 @ es2 @ es3 @
           [Upsert indexName (getNamespace cfg (fin_videoId p))
              (finalFrameVectors cfg (fin_videoId p) (fin_videoFilename p) (finalFrames p) embeddings
               @ svs @ mvs)]))"
  using assms
  by (simp add: finalIngestBody_def Let_def finalFrameVectors_length split: outcome.splits)

lemma finalIngestBody_ok:
  assumes "finalIngestBody cfg svc p indexName = (FinalIngestOk n ns idx inc, es)"
  shows "n = length (finalFrames p)
             + (if summaryGiven (fin_summary p) then 1 else 0)
             + (if \<exists>vs. fst (embedTexts cfg svc [''manifest video '' @ videoIdString (fin_videoId p)]) = Inr vs
                then 1 else 0)
         \<and> finalFrames p \<noteq> []"
proof -
  have ne: "length (finalFrames p) \<noteq> 0"
    using assms by (auto simp: finalIngestBody_def Let_def split: if_splits)
  obtain er es1 where e: "embedTexts cfg svc (descriptionsOf (finalFrames p)) = (er, es1)"
    by fastforce
  obtain embeddings where er: "er = Inr embeddings"
    using assms ne e by (cases er) (auto simp: finalIngestBody_def Let_def)
  obtain sr es2 where s: "summaryStep cfg svc (fin_videoId p) (fin_summary p) = (sr, es2)"
    by fastforce
  obtain svs where sr: "sr = Inr svs"
    using assms ne e er s by (cases sr) (auto simp: finalIngestBody_def Let_def)
  obtain mvs es3 where m: "manifestStep cfg svc (fin_videoId p) (fin_videoFilename p) (finalFrames p) = (mvs, es3)"
    by fastforce
  note body = finalIngestBody_cases [OF ne e [unfolded er] s [unfolded sr] m, of indexName]
  have n: "n = length (finalFrames p) + length (svs @ mvs)"
    using assms body
    by (cases "upsert svc indexName (getNamespace cfg (fin_videoId p))
             (finalFrameVectors cfg (fin_videoId p) (fin_videoFilename p) (finalFrames p) embeddings
              @ svs @ mvs)") auto
  have ls: "length svs = (if summaryGiven (fin_summary p) then 1 else 0)"
    using summaryStep_length [of cfg svc "fin_videoId p" "fin_summary p" svs] s sr by simp
  have lm: "length mvs = (if \<exists>vs. fst (embedTexts cfg svc [''manifest video '' @ videoIdString (fin_videoId p)]) = Inr vs
                then 1 else 0)"
    using manifestStep_length [of cfg svc "fin_videoId p" "fin_videoFilename p" "finalFrames p"] m
    by simp
  show ?thesis using n ls lm ne by simp
qed

lemma POST_finalIngest_ok:
  assumes "POST cfg svc s (FinalIngest p) = (FinalIngestOk n ns idx inc, es, s')"
  shows "n = length (finalFrames p)
             + (if summaryGiven (fin_summary p) then 1 else 0)
             + (if \<exists>vs. fst (embedTexts cfg svc [''manifest video '' @ videoIdString (fin_videoId p)]) = Inr vs
                then 1 else 0)
         \<and> finalFrames p \<noteq> []"
proof -
  let ?idx = "resolveIndexName cfg
            (case fin_indexName p of Some n \<Rightarrow> Some n | None \<Rightarrow> map_option IdStr (fin_videoFile p))"
  have a: "afterEnsure (ensureUnlessSkipped cfg svc s (fin_skipEnsure p) ?idx)
             (finalIngestBody cfg svc p ?idx) = (FinalIngestOk n ns idx inc, es, s')"
    using assms by (simp add: POST_def postFinalIngest_def Let_def split: option.splits)
  from afterEnsure_response [OF a]
  have "fst (finalIngestBody cfg svc p ?idx) = FinalIngestOk n ns idx inc" by auto
  then have "finalIngestBody cfg svc p ?idx
               = (FinalIngestOk n ns idx inc, snd (finalIngestBody cfg svc p ?idx))"
    by (metis prod.collapse)
  from finalIngestBody_ok [OF this] show ?thesis .
qed

lemma POST_finalIngest_manifest_failure:
  assumes "requireClients cfg = None"
    and "ensureUnlessSkipped cfg svc s (fin_skipEnsure p)
           (resolveIndexName cfg
              (case fin_indexName p of Some n \<Rightarrow> Some n | None \<Rightarrow> map_option IdStr (fin_videoFile p)))
         = (Inr (), es0, s1)"
    and "finalFrames p \<noteq> []"
    and "fst (embedTexts cfg svc (descriptionsOf (finalFrames p))) = Inr embeddings"
    and "fst (summaryStep cfg svc (fin_videoId p) (fin_summary p)) = Inr svs"
    and "fst (embedTexts cfg svc [''manifest video '' @ videoIdString (fin_videoId p)]) = Inl e"
    and "\<forall>indexName namespace vectors. upsert svc indexName namespace vectors = Returns ()"
  shows "fst (POST cfg svc s (FinalIngest p))
         = FinalIngestOk (length (finalFrames p) + length svs) (getNamespace cfg (fin_videoId p))
             (resolveIndexName cfg
                (case fin_indexName p of Some n \<Rightarrow> Some n | None \<Rightarrow> map_option IdStr (fin_videoFile p)))
             (length svs \<noteq> 0)
         \<and> ConsoleWarn (ManifestVectorFailed e) \<in> set (fst (snd (POST cfg svc s (FinalIngest p))))"
proof -
  let ?idx = "resolveIndexName cfg
            (case fin_indexName p of Some n \<Rightarrow> Some n | None \<Rightarrow> map_option IdStr (fin_videoFile p))"
  let ?m = "embedTexts cfg svc [''manifest video '' @ videoIdString (fin_videoId p)]"
  have ne: "length (finalFrames p) \<noteq> 0" using assms(3) by simp
  have e: "embedTexts cfg svc (descriptionsOf (finalFrames p))
             = (Inr embeddings, snd (embedTexts cfg svc (descriptionsOf (finalFrames p))))"
    using assms(4) by (metis prod.collapse)
  have s: "summaryStep cfg svc (fin_videoId p) (fin_summary p)
             = (Inr svs, snd (summaryStep cfg svc (fin_videoId p) (fin_summary p)))"
    using assms(5) by (metis prod.collapse)
  have m: "manifestStep cfg svc (fin_videoId p) (fin_videoFilename p) (finalFrames p)
             = ([], snd ?m @ [ConsoleWarn (ManifestVectorFailed e)])"
    using assms(6) by (rule manifestStep_swallowed)
  note body = finalIngestBody_cases [OF ne e s m, of ?idx]
  show ?thesis
    using assms(1,2,7) body
    by (simp add: POST_def postFinalIngest_def afterEnsure_def Let_def)
qed


lemmas final_ingest_defs =
  postFinalIngest_def finalIngestBody_def finalFrames_def descriptionsOf_def
  finalFrameVectors_def summaryStep_def summaryGiven_def trim_def isWhitespace_def
  manifestStep_def videoIdString_def idToString_def exampleFinalIngest_def exampleFrames_def

lemma final_ingest_blank_summary:
  "fst (POST exampleConfig exampleServices noAttempts (FinalIngest (exampleFinalIngest 1 (Some '' ''))))
   = FinalIngestOk 3 ''video-1'' ''video-frames'' True"
  by (simp add: example_defs final_ingest_defs)

lemma final_ingest_manifest_failed:
  "fst (POST exampleConfig exampleServices noAttempts (FinalIngest (exampleFinalIngest 9 (Some ''A crash''))))
   = FinalIngestOk 3 ''video-9'' ''video-frames'' True"
  by (simp add: example_defs final_ingest_defs)


text \<open>
  Claim C4 as it is written fails for a summary of white space only: it is a non-empty
  summary, no summary vector is written, and the count is the two frames plus the
  manifest vector.
\<close>

theorem final_ingest_blank_summary_counterexample:
  "fin_summary (exampleFinalIngest 1 (Some '' '')) = Some '' ''
   \<and> '' '' \<noteq> []
   \<and> length (finalFrames (exampleFinalIngest 1 (Some '' ''))) = 2
   \<and> fst (embedTexts exampleConfig exampleServices
            [''manifest video '' @ videoIdString (fin_videoId (exampleFinalIngest 1 (Some '' '')))])
       = Inr [[1, 2]]
   \<and> fst (POST exampleConfig exampleServices noAttempts (FinalIngest (exampleFinalIngest 1 (Some '' ''))))
       = FinalIngestOk 3 ''video-1'' ''video-frames'' True
   \<and> (3 :: nat) \<noteq> 2 + 1 + 1"
  by (simp add: final_ingest_blank_summary)
     (simp add: example_defs final_ingest_defs)

text \<open>
  Claim C4, as the code has it. When the final ingestion answers, the frames list is not
  empty and the count is the number of frames, plus 1 if a summary was given that is not
  empty after trimming white space, plus 1 if the manifest vector was built, that is, if
  its embedding succeeded. When that embedding fails and the rest of the ingestion does
  not, the failure is written to the console and the ingestion answers with the frames
  and the summary vector.
\<close>

theorem final_ingest_count:
  "(POST cfg svc s (FinalIngest p) = (FinalIngestOk n ns idx inc, es, s') \<longrightarrow>
      finalFrames p \<noteq> []
      \<and> n = length (finalFrames p)
             + (if summaryGiven (fin_summary p) then 1 else 0)
             + (if \<exists>vs. fst (embedTexts cfg svc
                              [''manifest video '' @ videoIdString (fin_videoId p)]) = Inr vs
                then 1 else 0))
   \<and> (summaryGiven summary \<longleftrightarrow> (\<exists>t. summary = Some t \<and> (\<exists>c \<in> set t. \<not> isWhitespace c)))
   \<and> (requireClients cfg = None
        \<and> ensureUnlessSkipped cfg svc s (fin_skipEnsure p)
             (resolveIndexName cfg
                (case fin_indexName p of Some n \<Rightarrow> Some n | None \<Rightarrow> map_option IdStr (fin_videoFile p)))
            = (Inr (), es0, s1)
        \<and> finalFrames p \<noteq> []
        \<and> fst (embedTexts cfg svc (descriptionsOf (finalFrames p))) = Inr embeddings
        \<and> fst (summaryStep cfg svc (fin_videoId p) (fin_summary p)) = Inr svs
        \<and> fst (embedTexts cfg svc [''manifest video '' @ videoIdString (fin_videoId p)]) = Inl e
        \<and> (\<forall>indexName namespace vectors. upsert svc indexName namespace vectors = Returns ())
      \<longrightarrow> fst (POST cfg svc s (FinalIngest p))
            = FinalIngestOk (length (finalFrames p) + length svs) (getNamespace cfg (fin_videoId p))
                (resolveIndexName cfg
                   (case fin_indexName p of Some n \<Rightarrow> Some n | None \<Rightarrow> map_option IdStr (fin_videoFile p)))
                (length svs \<noteq> 0)
          \<and> ConsoleWarn (ManifestVectorFailed e) \<in> set (fst (snd (POST cfg svc s (FinalIngest p)))))"
proof (intro conjI)
  show "POST cfg svc s (FinalIngest p) = (FinalIngestOk n ns idx inc, es, s') \<longrightarrow>
      finalFrames p \<noteq> []
      \<and> n = length (finalFrames p)
             + (if summaryGiven (fin_summary p) then 1 else 0)
             + (if \<exists>vs. fst (embedTexts cfg svc
                              [''manifest video '' @ videoIdString (fin_videoId p)]) = Inr vs
                then 1 else 0)"
    using POST_finalIngest_ok [of cfg svc s p n ns idx inc es s'] by blast
  show "summaryGiven summary \<longleftrightarrow> (\<exists>t. summary = Some t \<and> (\<exists>c \<in> set t. \<not> isWhitespace c))"
    by (rule summaryGiven_iff)
  show "requireClients cfg = None
        \<and> ensureUnlessSkipped cfg svc s (fin_skipEnsure p)
             (resolveIndexName cfg
                (case fin_indexName p of Some n \<Rightarrow> Some n | None \<Rightarrow> map_option IdStr (fin_videoFile p)))
            = (Inr (), es0, s1)
        \<and> finalFrames p \<noteq> []
        \<and> fst (embedTexts cfg svc (descriptionsOf (finalFrames p))) = Inr embeddings
        \<and> fst (summaryStep cfg svc (fin_videoId p) (fin_summary p)) = Inr svs
        \<and> fst (embedTexts cfg svc [''manifest video '' @ videoIdString (fin_videoId p)]) = Inl e
        \<and> (\<forall>indexName namespace vectors. upsert svc indexName namespace vectors = Returns ())
      \<longrightarrow> fst (POST cfg svc s (FinalIngest p))
            = FinalIngestOk (length (finalFrames p) + length svs) (getNamespace cfg (fin_videoId p))
                (resolveIndexName cfg
                   (case fin_indexName p of Some n \<Rightarrow> Some n | None \<Rightarrow> map_option IdStr (fin_videoFile p)))
                (length svs \<noteq> 0)
          \<and> ConsoleWarn (ManifestVectorFailed e) \<in> set (fst (snd (POST cfg svc s (FinalIngest p))))"
    using POST_finalIngest_manifest_failure [of cfg svc s p es0 s1 embeddings svs e] by blast
qed


theorem final_ingest_count_witness:
  "summaryGiven (Some ''A crash'')
   \<and> \<not> summaryGiven (Some '' '')
   \<and> finalFrames (exampleFinalIngest 9 (Some ''A crash'')) \<noteq> []
   \<and> fst (embedTexts exampleConfig exampleServices [''manifest video 9''])
       = Inl (ServiceError ''unavailable'')
   \<and> fst (POST exampleConfig exampleServices noAttempts
            (FinalIngest (exampleFinalIngest 9 (Some ''A crash''))))
       = FinalIngestOk 3 ''video-9'' ''video-frames'' True
   \<and> ConsoleWarn (ManifestVectorFailed (ServiceError ''unavailable''))
       \<in> set (fst (snd (POST exampleConfig exampleServices noAttempts
                           (FinalIngest (exampleFinalIngest 9 (Some ''A crash''))))))
   \<and> (3 :: nat) = length (finalFrames (exampleFinalIngest 9 (Some ''A crash'')))
                   + (if summaryGiven (fin_summary (exampleFinalIngest 9 (Some ''A crash''))) then 1 else 0)
                   + (if \<exists>vs. fst (embedTexts exampleConfig exampleServices
                                     [''manifest video '' @ videoIdString
                                        (fin_videoId (exampleFinalIngest 9 (Some ''A crash'')))]) = Inr vs
                      then 1 else 0)"
proof -
  let ?p = "exampleFinalIngest 9 (Some ''A crash'')"
  let ?post = "POST exampleConfig exampleServices noAttempts (FinalIngest ?p)"
  have sg: "summaryGiven (Some ''A crash'')"
    by (simp add: summaryGiven_def trim_def isWhitespace_def)
  have nsg: "\<not> summaryGiven (Some '' '')"
    by (simp add: summaryGiven_def trim_def isWhitespace_def)
  have h1: "requireClients exampleConfig = None"
    by (simp add: example_defs)
  have h2: "ensureUnlessSkipped exampleConfig exampleServices noAttempts (fin_skipEnsure ?p)
             (resolveIndexName exampleConfig
                (case fin_indexName ?p of Some n \<Rightarrow> Some n | None \<Rightarrow> map_option IdStr (fin_videoFile ?p)))
            = (Inr (), [], noAttempts)"
    by (simp add: ensureUnlessSkipped_def exampleFinalIngest_def)
  have h3: "finalFrames ?p \<noteq> []"
    by (simp add: finalFrames_def exampleFinalIngest_def exampleFrames_def)
  have h4: "fst (embedTexts exampleConfig exampleServices (descriptionsOf (finalFrames ?p)))
            = Inr [[1, 2], [1, 2]]"
    by (simp add: example_defs final_ingest_defs)
  have h5: "fst (summaryStep exampleConfig exampleServices (fin_videoId ?p) (fin_summary ?p))
            = Inr [summaryVector exampleConfig (Some (IdNum 9)) ''A crash'' [1, 2]]"
    by (simp add: example_defs final_ingest_defs)
  have h6: "fst (embedTexts exampleConfig exampleServices
                   [''manifest video '' @ videoIdString (fin_videoId ?p)])
            = Inl (ServiceError ''unavailable'')"
    by (simp add: example_defs final_ingest_defs)
  have h7: "\<forall>indexName namespace vectors. upsert exampleServices indexName namespace vectors = Returns ()"
    by (simp add: exampleServices_def)
  have m: "fst (embedTexts exampleConfig exampleServices [''manifest video 9''])
             = Inl (ServiceError ''unavailable'')"
    by (simp add: example_defs)
  have r: "fst ?post = FinalIngestOk 3 ''video-9'' ''video-frames'' True"
    by (rule final_ingest_manifest_failed)
  then have eq: "?post = (FinalIngestOk 3 ''video-9'' ''video-frames'' True, fst (snd ?post), snd (snd ?post))"
    by (metis prod.collapse)
  have c: "(3 :: nat) = length (finalFrames ?p)
                   + (if summaryGiven (fin_summary ?p) then 1 else 0)
                   + (if \<exists>vs. fst (embedTexts exampleConfig exampleServices
                                     [''manifest video '' @ videoIdString (fin_videoId ?p)]) = Inr vs
                      then 1 else 0)"
    using final_ingest_count [of exampleConfig exampleServices noAttempts ?p 3 "''video-9''"
        "''video-frames''" True "fst (snd ?post)" "snd (snd ?post)"] eq
    by blast
  have w: "ConsoleWarn (ManifestVectorFailed (ServiceError ''unavailable''))
             \<in> set (fst (snd ?post))"
    using final_ingest_count [of exampleConfig exampleServices noAttempts ?p _ _ _ _ _ _ _
        "[]" noAttempts "[[1, 2], [1, 2]]"
        "[summaryVector exampleConfig (Some (IdNum 9)) ''A crash'' [1, 2]]"
        "ServiceError ''unavailable''"] h1 h2 h3 h4 h5 h6 h7
    by blast
  show ?thesis using sg nsg h3 m r w c by blast
qed

section \<open>Provisioning and the rejection of empty input: results\<close>

lemma pollIndex_effects:
  "\<forall>e \<in> set (snd (pollIndex svc name attempt remaining)). isProvisioningCall e"
proof (induction remaining arbitrary: attempt)
  case 0
  then show ?case by simp
next
  case (Suc remaining)
  obtain r es where p: "pollIndex svc name (Suc attempt) remaining = (r, es)" by fastforce
  then have "\<forall>e \<in> set es. isProvisioningCall e"
    using Suc [of "Suc attempt"] by simp
  then show ?case using p by simp
qed

lemma initializer_effects:
  "\<forall>e \<in> set (snd (initializer svc name)). isProvisioningCall e"
proof -
  obtain r es where p: "pollIndex svc name 0 maxAttempts = (r, es)" by fastforce
  then have "\<forall>e \<in> set es. isProvisioningCall e"
    using pollIndex_effects [of svc name 0 maxAttempts] by simp
  then show ?thesis
    using p by (simp add: initializer_def split: outcome.splits)
qed

lemma ensureIndexReady_effects:
  "\<forall>e \<in> set (fst (snd (ensureIndexReady cfg svc s name))). isProvisioningCall e"
proof -
  obtain r es where i: "initializer svc name = (r, es)" by fastforce
  then have "\<forall>e \<in> set es. isProvisioningCall e"
    using initializer_effects [of svc name] by simp
  then show ?thesis
    using i
    by (simp add: ensureIndexReady_def awaitAttempt_def startAttempt_def Let_def
          split: option.splits promise_state.splits)
qed

lemma ensureUnlessSkipped_effects:
  "\<forall>e \<in> set (fst (snd (ensureUnlessSkipped cfg svc s skip name))). isProvisioningCall e"
  using ensureIndexReady_effects [of cfg svc s name] by (simp add: ensureUnlessSkipped_def)

lemma afterEnsure_no_body_effects:
  "fst (snd (afterEnsure ensured (resp, []))) = fst (snd ensured)"
  by (cases ensured) (simp add: afterEnsure_def split: sum.splits)

lemma afterEnsure_ensured:
  "fst ensured = Inr () \<Longrightarrow> fst (afterEnsure ensured body) = fst body"
  by (cases ensured) (simp add: afterEnsure_def)

lemma ingestBody_empty:
  "ing_frames p = None \<or> ing_frames p = Some [] \<Longrightarrow>
   ingestBody cfg svc p indexName = (BadRequest ''No frames provided for ingestion.'', [])"
  by (auto simp: ingestBody_def)

lemma queryBody_empty:
  "noQuestion (q_question p) \<Longrightarrow>
   queryBody cfg svc p indexName = (BadRequest ''Question is required for query.'', [])"
  by (simp add: queryBody_def)

lemma analyzeBody_empty:
  "noQuestion (q_question p) \<Longrightarrow>
   analyzeBody cfg svc p indexName = (BadRequest ''Question is required for analyze.'', [])"
  by (simp add: analyzeBody_def)

lemma rejection_shape:
  assumes "body = (BadRequest msg, [])"
    and "post = (case requireClients cfg of
                   Some e \<Rightarrow> (ServerError e, [], s)
                 | None \<Rightarrow> afterEnsure (ensureUnlessSkipped cfg svc s skip name) body)"
  shows "(\<forall>e \<in> set (fst (snd post)). isProvisioningCall e)
         \<and> (skip \<longrightarrow> fst (snd post) = [])
         \<and> (requireClients cfg = None \<and> fst (ensureUnlessSkipped cfg svc s skip name) = Inr ()
              \<longrightarrow> fst post = BadRequest msg)"
proof (cases "requireClients cfg")
  case None
  have p: "post = afterEnsure (ensureUnlessSkipped cfg svc s skip name) (BadRequest msg, [])"
    using assms None by simp
  have 1: "\<forall>e \<in> set (fst (snd post)). isProvisioningCall e"
    unfolding p afterEnsure_no_body_effects by (rule ensureUnlessSkipped_effects)
  have 2: "skip \<longrightarrow> fst (snd post) = []"
    unfolding p afterEnsure_no_body_effects by (simp add: ensureUnlessSkipped_def)
  have 3: "fst (ensureUnlessSkipped cfg svc s skip name) = Inr () \<longrightarrow> fst post = BadRequest msg"
    unfolding p by (simp add: afterEnsure_ensured)
  show ?thesis using 1 2 3 by blast
next
  case (Some e)
  then show ?thesis using assms by simp
qed

lemma POST_ingest_shape:
  "POST cfg svc s (Ingest p) =
     (case requireClients cfg of
        Some e \<Rightarrow> (ServerError e, [], s)
      | None \<Rightarrow> afterEnsure (ensureUnlessSkipped cfg svc s (ing_skipEnsure p)
                               (resolveIndexName cfg (ing_indexName p)))
                   (ingestBody cfg svc p (resolveIndexName cfg (ing_indexName p))))"
  by (simp add: POST_def postIngest_def Let_def split: option.splits)

lemma POST_query_shape:
  "POST cfg svc s (Query p) =
     (case requireClients cfg of
        Some e \<Rightarrow> (ServerError e, [], s)
      | None \<Rightarrow> afterEnsure (ensureUnlessSkipped cfg svc s (q_skipEnsure p)
                               (resolveIndexName cfg (q_indexName p)))
                   (queryBody cfg svc p (resolveIndexName cfg (q_indexName p))))"
  by (simp add: POST_def postQuery_def Let_def split: option.splits)

lemma POST_analyze_shape:
  "POST cfg svc s (Analyze p) =
     (case requireClients cfg of
        Some e \<Rightarrow> (ServerError e, [], s)
      | None \<Rightarrow> afterEnsure (ensureUnlessSkipped cfg svc s (q_skipEnsure p)
                               (resolveIndexName cfg (q_indexName p)))
                   (analyzeBody cfg svc p (resolveIndexName cfg (q_indexName p))))"
  by (simp add: POST_def postAnalyze_def Let_def split: option.splits)

lemma pollIndex_ready_now:
  "0 < remaining \<Longrightarrow> describedReady (describeIndex svc name attempt) \<Longrightarrow>
   pollIndex svc name attempt remaining = (Inr (), [DescribeIndex name])"
  by (cases remaining) auto

lemma example_ensure:
  "ensureIndexReady exampleConfig exampleServices noAttempts ''video-frames''
   = (Inr (), [ListIndexes, DescribeIndex ''video-frames''],
      \<lparr>attempts = [(''video-frames'', Fulfilled)],
       indexInitPromises = [''video-frames'' \<mapsto> 0]\<rparr>)"
proof -
  have p: "pollIndex exampleServices ''video-frames'' 0 maxAttempts
             = (Inr (), [DescribeIndex ''video-frames''])"
    by (rule pollIndex_ready_now)
       (simp_all add: maxAttempts_def describedReady_def exampleServices_def)
  have l: "listIndexes exampleServices = Returns (ListingArray [ItemString ''video-frames''])"
    by (simp add: exampleServices_def)
  have i: "initializer exampleServices ''video-frames''
             = (Inr (), [ListIndexes, DescribeIndex ''video-frames''])"
    by (simp add: initializer_def p l itemNames_def)
  have c: "hasPineconeClient exampleConfig"
    by (simp add: hasPineconeClient_def exampleConfig_def)
  show ?thesis
    by (simp add: ensureIndexReady_def i c startAttempt_def settleAttempt_def noAttempts_def)
qed


text \<open>
  Claim C1 as it is written fails: an ingest call with an empty frames list that does not
  skip the provisioning step lists the indexes and describes the index, two network
  calls, before it is rejected.
\<close>

theorem ingest_rejection_counterexample:
  "ing_frames \<lparr>ing_indexName = None, ing_videoId = None, ing_skipEnsure = False, ing_frames = Some []\<rparr>
     = Some []
   \<and> fst (POST exampleConfig exampleServices noAttempts
            (Ingest \<lparr>ing_indexName = None, ing_videoId = None, ing_skipEnsure = False,
                     ing_frames = Some []\<rparr>))
       = BadRequest ''No frames provided for ingestion.''
   \<and> fst (snd (POST exampleConfig exampleServices noAttempts
            (Ingest \<lparr>ing_indexName = None, ing_videoId = None, ing_skipEnsure = False,
                     ing_frames = Some []\<rparr>)))
       = [ListIndexes, DescribeIndex ''video-frames'']
   \<and> isNetworkCall ListIndexes \<and> isNetworkCall (DescribeIndex ''video-frames'')"
proof -
  have n: "resolveIndexName exampleConfig None = ''video-frames''"
    by (simp add: example_defs)
  have c: "requireClients exampleConfig = None"
    by (simp add: example_defs)
  show ?thesis
    by (simp add: POST_ingest_shape ingestBody_empty n c ensureUnlessSkipped_def example_ensure
          afterEnsure_def)
qed

text \<open>
  Claim C1, as the code has it. For an ingest call whose frames are missing or empty and
  for a query or analyze call whose question is missing or empty, every effect of the
  request belongs to the provisioning step: there is no embedding, upsert, query, fetch
  or generation call. With \<^verbatim>\<open>skipEnsure\<close> the request has no effect at all. When the
  clients are there and the provisioning step does not throw, the response is the error
  with status 400.
\<close>

theorem empty_input_rejection:
  "((ing_frames ireq = None \<or> ing_frames ireq = Some []) \<longrightarrow>
      (\<forall>e \<in> set (fst (snd (POST cfg svc s (Ingest ireq)))). isProvisioningCall e)
      \<and> (ing_skipEnsure ireq \<longrightarrow> fst (snd (POST cfg svc s (Ingest ireq))) = [])
      \<and> (requireClients cfg = None
           \<and> fst (ensureUnlessSkipped cfg svc s (ing_skipEnsure ireq)
                    (resolveIndexName cfg (ing_indexName ireq))) = Inr ()
          \<longrightarrow> fst (POST cfg svc s (Ingest ireq)) = BadRequest ''No frames provided for ingestion.''))
   \<and> (noQuestion (q_question qreq) \<longrightarrow>
      (\<forall>e \<in> set (fst (snd (POST cfg svc s (Query qreq)))). isProvisioningCall e)
      \<and> (q_skipEnsure qreq \<longrightarrow> fst (snd (POST cfg svc s (Query qreq))) = [])
      \<and> (requireClients cfg = None
           \<and> fst (ensureUnlessSkipped cfg svc s (q_skipEnsure qreq)
                    (resolveIndexName cfg (q_indexName qreq))) = Inr ()
          \<longrightarrow> fst (POST cfg svc s (Query qreq)) = BadRequest ''Question is required for query.'')
      \<and> (\<forall>e \<in> set (fst (snd (POST cfg svc s (Analyze qreq)))). isProvisioningCall e)
      \<and> (q_skipEnsure qreq \<longrightarrow> fst (snd (POST cfg svc s (Analyze qreq))) = [])
      \<and> (requireClients cfg = None
           \<and> fst (ensureUnlessSkipped cfg svc s (q_skipEnsure qreq)
                    (resolveIndexName cfg (q_indexName qreq))) = Inr ()
          \<longrightarrow> fst (POST cfg svc s (Analyze qreq)) = BadRequest ''Question is required for analyze.''))
   \<and> \<not> isProvisioningCall (EmbedContent t)
   \<and> \<not> isProvisioningCall (Upsert i n vs)
   \<and> \<not> isProvisioningCall (QueryIndex i n v k)
   \<and> \<not> isProvisioningCall (FetchRecords i n ids)
   \<and> \<not> isProvisioningCall (GenerateContent q ms)"
proof -
  have a: "(ing_frames ireq = None \<or> ing_frames ireq = Some []) \<longrightarrow>
      (\<forall>e \<in> set (fst (snd (POST cfg svc s (Ingest ireq)))). isProvisioningCall e)
      \<and> (ing_skipEnsure ireq \<longrightarrow> fst (snd (POST cfg svc s (Ingest ireq))) = [])
      \<and> (requireClients cfg = None
           \<and> fst (ensureUnlessSkipped cfg svc s (ing_skipEnsure ireq)
                    (resolveIndexName cfg (ing_indexName ireq))) = Inr ()
          \<longrightarrow> fst (POST cfg svc s (Ingest ireq)) = BadRequest ''No frames provided for ingestion.'')"
    using rejection_shape [OF ingestBody_empty POST_ingest_shape] by blast
  have b: "noQuestion (q_question qreq) \<longrightarrow>
      (\<forall>e \<in> set (fst (snd (POST cfg svc s (Query qreq)))). isProvisioningCall e)
      \<and> (q_skipEnsure qreq \<longrightarrow> fst (snd (POST cfg svc s (Query qreq))) = [])
      \<and> (requireClients cfg = None
           \<and> fst (ensureUnlessSkipped cfg svc s (q_skipEnsure qreq)
                    (resolveIndexName cfg (q_indexName qreq))) = Inr ()
          \<longrightarrow> fst (POST cfg svc s (Query qreq)) = BadRequest ''Question is required for query.'')"
    using rejection_shape [OF queryBody_empty POST_query_shape] by blast
  have c: "noQuestion (q_question qreq) \<longrightarrow>
      (\<forall>e \<in> set (fst (snd (POST cfg svc s (Analyze qreq)))). isProvisioningCall e)
      \<and> (q_skipEnsure qreq \<longrightarrow> fst (snd (POST cfg svc s (Analyze qreq))) = [])
      \<and> (requireClients cfg = None
           \<and> fst (ensureUnlessSkipped cfg svc s (q_skipEnsure qreq)
                    (resolveIndexName cfg (q_indexName qreq))) = Inr ()
          \<longrightarrow> fst (POST cfg svc s (Analyze qreq)) = BadRequest ''Question is required for analyze.'')"
    using rejection_shape [OF analyzeBody_empty POST_analyze_shape] by blast
  show ?thesis using a b c by simp
qed

theorem empty_input_rejection_witness:
  "ing_frames \<lparr>ing_indexName = None, ing_videoId = None, ing_skipEnsure = False, ing_frames = Some []\<rparr>
     = Some []
   \<and> noQuestion (q_question \<lparr>q_indexName = None, q_videoId = None, q_question = Some [],
                              q_topK = None, q_skipEnsure = True\<rparr>)
   \<and> requireClients exampleConfig = None
   \<and> fst (POST exampleConfig exampleServices noAttempts
            (Ingest \<lparr>ing_indexName = None, ing_videoId = None, ing_skipEnsure = False,
                     ing_frames = Some []\<rparr>))
       = BadRequest ''No frames provided for ingestion.''
   \<and> list_all isProvisioningCall
        (fst (snd (POST exampleConfig exampleServices noAttempts
            (Ingest \<lparr>ing_indexName = None, ing_videoId = None, ing_skipEnsure = False,
                     ing_frames = Some []\<rparr>))))
   \<and> fst (POST exampleConfig exampleServices noAttempts
            (Query \<lparr>q_indexName = None, q_videoId = None, q_question = Some [],
                    q_topK = None, q_skipEnsure = True\<rparr>))
       = BadRequest ''Question is required for query.''
   \<and> fst (snd (POST exampleConfig exampleServices noAttempts
            (Query \<lparr>q_indexName = None, q_videoId = None, q_question = Some [],
                    q_topK = None, q_skipEnsure = True\<rparr>))) = []
   \<and> fst (POST exampleConfig exampleServices noAttempts
            (Analyze \<lparr>q_indexName = None, q_videoId = None, q_question = Some [],
                      q_topK = None, q_skipEnsure = True\<rparr>))
       = BadRequest ''Question is required for analyze.''
   \<and> fst (snd (POST exampleConfig exampleServices noAttempts
            (Analyze \<lparr>q_indexName = None, q_videoId = None, q_question = Some [],
                      q_topK = None, q_skipEnsure = True\<rparr>))) = []"
proof -
  let ?pi = "\<lparr>ing_indexName = None, ing_videoId = None, ing_skipEnsure = False, ing_frames = Some []\<rparr>"
  let ?pq = "\<lparr>q_indexName = None, q_videoId = None, q_question = Some [],
              q_topK = None, q_skipEnsure = True\<rparr>"
  have f: "ing_frames ?pi = None \<or> ing_frames ?pi = Some []" by simp
  have nq: "noQuestion (q_question ?pq)" by (simp add: noQuestion_def)
  have sk: "q_skipEnsure ?pq" by simp
  have c: "requireClients exampleConfig = None"
    by (simp add: example_defs)
  have n: "resolveIndexName exampleConfig None = ''video-frames''"
    by (simp add: example_defs)
  have e1: "fst (ensureUnlessSkipped exampleConfig exampleServices noAttempts (ing_skipEnsure ?pi)
                   (resolveIndexName exampleConfig (ing_indexName ?pi))) = Inr ()"
    by (simp add: n ensureUnlessSkipped_def example_ensure)
  have e2: "fst (ensureUnlessSkipped exampleConfig exampleServices noAttempts (q_skipEnsure ?pq)
                   (resolveIndexName exampleConfig (q_indexName ?pq))) = Inr ()"
    by (simp add: ensureUnlessSkipped_def)
  note t = empty_input_rejection [of ?pi exampleConfig exampleServices noAttempts ?pq]
  have ti: "list_all isProvisioningCall
              (fst (snd (POST exampleConfig exampleServices noAttempts (Ingest ?pi))))
            \<and> fst (POST exampleConfig exampleServices noAttempts (Ingest ?pi))
                = BadRequest ''No frames provided for ingestion.''"
    unfolding list_all_iff using t f c e1 by blast
  have tq: "fst (snd (POST exampleConfig exampleServices noAttempts (Query ?pq))) = []
            \<and> fst (POST exampleConfig exampleServices noAttempts (Query ?pq))
                = BadRequest ''Question is required for query.''
            \<and> fst (snd (POST exampleConfig exampleServices noAttempts (Analyze ?pq))) = []
            \<and> fst (POST exampleConfig exampleServices noAttempts (Analyze ?pq))
                = BadRequest ''Question is required for analyze.''"
    using t nq sk c e2 by blast
  have g: "ing_frames ?pi = Some []" by simp
  show ?thesis
    using g nq c ti tq by (intro conjI) blast+
qed

section \<open>The provisioning coordinator: results\<close>

lemma cacheInvariant_noAttempts: "cacheInvariant noAttempts"
  by (simp add: cacheInvariant_def noAttempts_def)

lemma cacheInvariant_cached:
  "cacheInvariant s \<Longrightarrow> indexInitPromises s n = Some k \<Longrightarrow>
   k < length (attempts s) \<and> fst (attempts s ! k) = n \<and> (\<forall>e. snd (attempts s ! k) \<noteq> Rejected e)"
  unfolding cacheInvariant_def by blast

lemma cacheInvariant_pending:
  "cacheInvariant s \<Longrightarrow> k < length (attempts s) \<Longrightarrow> snd (attempts s ! k) = Pending \<Longrightarrow>
   indexInitPromises s (fst (attempts s ! k)) = Some k"
  unfolding cacheInvariant_def by blast

lemma cacheInvariantI:
  assumes "\<And>n k. indexInitPromises s n = Some k \<Longrightarrow>
             k < length (attempts s) \<and> fst (attempts s ! k) = n
             \<and> (\<forall>e. snd (attempts s ! k) \<noteq> Rejected e)"
    and "\<And>k. k < length (attempts s) \<Longrightarrow> snd (attempts s ! k) = Pending \<Longrightarrow>
             indexInitPromises s (fst (attempts s ! k)) = Some k"
  shows "cacheInvariant s"
  unfolding cacheInvariant_def using assms by blast

lemma cacheInvariant_start:
  assumes "cacheInvariant s" and "indexInitPromises s name = None"
  shows "cacheInvariant (fst (startAttempt s name))"
proof (rule cacheInvariantI)
  let ?s = "fst (startAttempt s name)"
  have at: "attempts ?s = attempts s @ [(name, Pending)]"
    and ca: "indexInitPromises ?s = (indexInitPromises s)(name \<mapsto> length (attempts s))"
    by (simp_all add: startAttempt_def Let_def)
  show "indexInitPromises ?s n = Some k \<Longrightarrow>
          k < length (attempts ?s) \<and> fst (attempts ?s ! k) = n
          \<and> (\<forall>e. snd (attempts ?s ! k) \<noteq> Rejected e)" for n k
  proof (cases "n = name")
    case True
    assume "indexInitPromises ?s n = Some k"
    then have "k = length (attempts s)" using True ca by simp
    then show ?thesis using True at by simp
  next
    case False
    assume "indexInitPromises ?s n = Some k"
    then have "indexInitPromises s n = Some k" using False ca by simp
    from cacheInvariant_cached [OF assms(1) this]
    show ?thesis using at by (simp add: nth_append)
  qed
  show "k < length (attempts ?s) \<Longrightarrow> snd (attempts ?s ! k) = Pending \<Longrightarrow>
          indexInitPromises ?s (fst (attempts ?s ! k)) = Some k" for k
  proof (cases "k = length (attempts s)")
    case True
    then show ?thesis using at ca by simp
  next
    case False
    assume "k < length (attempts ?s)" and p: "snd (attempts ?s ! k) = Pending"
    then have lt: "k < length (attempts s)" using False at by simp
    then have "snd (attempts s ! k) = Pending" using p at by (simp add: nth_append)
    from cacheInvariant_pending [OF assms(1) lt this]
    have old: "indexInitPromises s (fst (attempts s ! k)) = Some k" .
    then have "fst (attempts s ! k) \<noteq> name" using assms(2) by auto
    then show ?thesis using old lt at ca by (simp add: nth_append)
  qed
qed

lemma cacheInvariant_settle:
  assumes "cacheInvariant s" and "h < length (attempts s)" and "snd (attempts s ! h) = Pending"
  shows "cacheInvariant (settleAttempt s h r)"
proof -
  let ?n = "fst (attempts s ! h)"
  have ch: "indexInitPromises s ?n = Some h"
    using assms by (rule cacheInvariant_pending)
  show ?thesis
  proof (cases r)
    case (Inr u)
    have at: "attempts (settleAttempt s h r) = (attempts s)[h := (?n, Fulfilled)]"
      and ca: "indexInitPromises (settleAttempt s h r) = indexInitPromises s"
      using Inr assms(2) by (simp_all add: settleAttempt_def Let_def)
    show ?thesis
    proof (rule cacheInvariantI)
      fix n k assume "indexInitPromises (settleAttempt s h r) n = Some k"
      then have "indexInitPromises s n = Some k" using ca by simp
      from cacheInvariant_cached [OF assms(1) this]
      have f: "k < length (attempts s)" "fst (attempts s ! k) = n"
        "\<forall>e. snd (attempts s ! k) \<noteq> Rejected e" by auto
      show "k < length (attempts (settleAttempt s h r))
            \<and> fst (attempts (settleAttempt s h r) ! k) = n
            \<and> (\<forall>e. snd (attempts (settleAttempt s h r) ! k) \<noteq> Rejected e)"
      proof (cases "k = h")
        case True
        then show ?thesis using f at assms(2) by simp
      next
        case False
        then show ?thesis using f at by simp
      qed
    next
      fix k assume k: "k < length (attempts (settleAttempt s h r))"
        and p: "snd (attempts (settleAttempt s h r) ! k) = Pending"
      have kh: "k \<noteq> h" using k p at assms(2) by auto
      then have "k < length (attempts s)" and "snd (attempts s ! k) = Pending"
        using k p at by simp_all
      from cacheInvariant_pending [OF assms(1) this]
      show "indexInitPromises (settleAttempt s h r) (fst (attempts (settleAttempt s h r) ! k)) = Some k"
        using kh at ca by simp
    qed
  next
    case (Inl e)
    have at: "attempts (settleAttempt s h r) = (attempts s)[h := (?n, Rejected e)]"
      and ca: "indexInitPromises (settleAttempt s h r) = (indexInitPromises s)(?n := None)"
      using Inl assms(2) by (simp_all add: settleAttempt_def Let_def)
    show ?thesis
    proof (rule cacheInvariantI)
      fix n k assume c: "indexInitPromises (settleAttempt s h r) n = Some k"
      then have nn: "n \<noteq> ?n" and old: "indexInitPromises s n = Some k"
        using ca by (auto split: if_splits)
      from cacheInvariant_cached [OF assms(1) old]
      have f: "k < length (attempts s)" "fst (attempts s ! k) = n"
        "\<forall>e. snd (attempts s ! k) \<noteq> Rejected e" by auto
      have kh: "k \<noteq> h" using f(2) nn by auto
      show "k < length (attempts (settleAttempt s h r))
            \<and> fst (attempts (settleAttempt s h r) ! k) = n
            \<and> (\<forall>e. snd (attempts (settleAttempt s h r) ! k) \<noteq> Rejected e)"
        using f kh at by simp
    next
      fix k assume k: "k < length (attempts (settleAttempt s h r))"
        and p: "snd (attempts (settleAttempt s h r) ! k) = Pending"
      have kh: "k \<noteq> h" using k p at assms(2) by auto
      then have "k < length (attempts s)" and "snd (attempts s ! k) = Pending"
        using k p at by simp_all
      from cacheInvariant_pending [OF assms(1) this]
      have old: "indexInitPromises s (fst (attempts s ! k)) = Some k" .
      then have "fst (attempts s ! k) \<noteq> ?n" using ch kh by auto
      then show "indexInitPromises (settleAttempt s h r) (fst (attempts (settleAttempt s h r) ! k)) = Some k"
        using old kh at ca by simp
    qed
  qed
qed

lemma cacheInvariant_step: "cacheInvariant s \<Longrightarrow> cacheInvariant (step s ev)"
proof (cases ev)
  case (Call name)
  assume "cacheInvariant s"
  then show ?thesis
    using Call cacheInvariant_start [of s name] by (cases "indexInitPromises s name") auto
next
  case (Settle h r)
  assume "cacheInvariant s"
  then show ?thesis
    using Settle cacheInvariant_settle [of s h r] by auto
qed

lemma cacheInvariant_foldl: "cacheInvariant s \<Longrightarrow> cacheInvariant (foldl step s evs)"
  by (induction evs arbitrary: s) (auto simp: cacheInvariant_step)

lemma cacheInvariant_runEvents: "cacheInvariant (runEvents evs)"
  unfolding runEvents_def by (rule cacheInvariant_foldl) (rule cacheInvariant_noAttempts)

lemma inFlight_at_most_one:
  assumes "cacheInvariant s"
  shows "length (inFlight s name) \<le> 1"
proof -
  have d: "distinct (inFlight s name)" by (simp add: inFlight_def)
  have "\<forall>h \<in> set (inFlight s name). indexInitPromises s name = Some h"
  proof
    fix h assume "h \<in> set (inFlight s name)"
    then have h: "h < length (attempts s)" and a: "attempts s ! h = (name, Pending)"
      by (simp_all add: inFlight_def)
    have "snd (attempts s ! h) = Pending" using a by simp
    from cacheInvariant_pending [OF assms h this]
    show "indexInitPromises s name = Some h" using a by simp
  qed
  then have "set (inFlight s name) \<subseteq> (case indexInitPromises s name of None \<Rightarrow> {} | Some h \<Rightarrow> {h})"
    by (auto split: option.splits)
  then have "card (set (inFlight s name)) \<le> 1"
  proof (cases "indexInitPromises s name")
    case None
    assume "set (inFlight s name) \<subseteq> (case indexInitPromises s name of None \<Rightarrow> {} | Some h \<Rightarrow> {h})"
    then show ?thesis using None by simp
  next
    case (Some h)
    assume "set (inFlight s name) \<subseteq> (case indexInitPromises s name of None \<Rightarrow> {} | Some h \<Rightarrow> {h})"
    then have "set (inFlight s name) \<subseteq> {h}" using Some by simp
    then have "card (set (inFlight s name)) \<le> card {h}" by (intro card_mono) simp_all
    then show ?thesis by simp
  qed
  then show ?thesis using d by (simp add: distinct_card)
qed


lemma settleAttempt_length [simp]: "length (attempts (settleAttempt s h r)) = length (attempts s)"
  by (cases r) (simp_all add: settleAttempt_def Let_def)

lemma settleAttempt_evicts:
  "h < length (attempts s) \<Longrightarrow>
   indexInitPromises (settleAttempt s h (Inl e)) (fst (attempts s ! h)) = None"
  by (simp add: settleAttempt_def Let_def)

lemma initializer_begins: "hd (snd (initializer svc name)) = ListIndexes"
  by (simp add: initializer_def split: outcome.splits prod.splits)

lemma ensure_joined:
  assumes "hasPineconeClient cfg" and "indexInitPromises s name = Some h"
  shows "fst (snd (ensureIndexReady cfg svc s name)) = []
         \<and> length (attempts (snd (snd (ensureIndexReady cfg svc s name)))) = length (attempts s)
         \<and> fst (ensureIndexReady cfg svc s name)
             = (case snd (attempts s ! h) of
                  Fulfilled \<Rightarrow> Inr ()
                | Rejected e \<Rightarrow> Inl e
                | Pending \<Rightarrow> fst (initializer svc (fst (attempts s ! h))))
         \<and> step s (Call name) = s"
  using assms
  by (simp add: ensureIndexReady_def awaitAttempt_def Let_def split: promise_state.splits)

lemma ensure_fresh:
  assumes "hasPineconeClient cfg" and "indexInitPromises s name = None"
  shows "fst (ensureIndexReady cfg svc s name) = fst (initializer svc name)
         \<and> fst (snd (ensureIndexReady cfg svc s name)) = snd (initializer svc name)
         \<and> length (attempts (snd (snd (ensureIndexReady cfg svc s name)))) = Suc (length (attempts s))
         \<and> indexInitPromises (snd (snd (ensureIndexReady cfg svc s name))) name
             = (case fst (initializer svc name) of
                  Inl e \<Rightarrow> None
                | Inr u \<Rightarrow> Some (length (attempts s)))"
proof -
  obtain r es where i: "initializer svc name = (r, es)" by fastforce
  have e: "ensureIndexReady cfg svc s name
             = (r, es, settleAttempt (fst (startAttempt s name)) (length (attempts s)) r)"
    using assms i by (simp add: ensureIndexReady_def startAttempt_def Let_def)
  have l: "length (attempts (fst (startAttempt s name))) = Suc (length (attempts s))"
    by (simp add: startAttempt_def Let_def)
  have c: "indexInitPromises (settleAttempt (fst (startAttempt s name)) (length (attempts s)) r) name
             = (case r of Inl e \<Rightarrow> None | Inr u \<Rightarrow> Some (length (attempts s)))"
    by (cases r) (simp_all add: settleAttempt_def startAttempt_def Let_def)
  show ?thesis using e i l c by simp
qed

lemma ensure_retry_after_failure:
  assumes "hasPineconeClient cfg" and "indexInitPromises s name = None"
    and "fst (initializer svc name) = Inl e"
  shows "indexInitPromises (snd (snd (ensureIndexReady cfg svc s name))) name = None
         \<and> fst (snd (ensureIndexReady cfg svc (snd (snd (ensureIndexReady cfg svc s name))) name))
             = snd (initializer svc name)
         \<and> length (attempts (snd (snd (ensureIndexReady cfg svc
                                          (snd (snd (ensureIndexReady cfg svc s name))) name))))
             = length (attempts s) + 2"
proof -
  let ?s' = "snd (snd (ensureIndexReady cfg svc s name))"
  have 1: "indexInitPromises ?s' name = None"
    and l1: "length (attempts ?s') = Suc (length (attempts s))"
    using ensure_fresh [OF assms(1,2), of svc] assms(3) by simp_all
  from ensure_fresh [OF assms(1) 1, of svc] l1 1 show ?thesis by simp
qed

lemma ensureIndexReady_invariant:
  assumes "cacheInvariant s"
  shows "cacheInvariant (snd (snd (ensureIndexReady cfg svc s name)))"
proof (cases "hasPineconeClient cfg")
  case False
  then show ?thesis using assms by (simp add: ensureIndexReady_def)
next
  case True
  show ?thesis
  proof (cases "indexInitPromises s name")
    case None
    obtain r es where i: "initializer svc name = (r, es)" by fastforce
    let ?s1 = "fst (startAttempt s name)"
    have e: "snd (snd (ensureIndexReady cfg svc s name)) = settleAttempt ?s1 (length (attempts s)) r"
      using True None i by (simp add: ensureIndexReady_def startAttempt_def Let_def)
    have inv1: "cacheInvariant ?s1" using assms None by (rule cacheInvariant_start)
    have "length (attempts s) < length (attempts ?s1)"
      and "snd (attempts ?s1 ! length (attempts s)) = Pending"
      by (simp_all add: startAttempt_def Let_def)
    from cacheInvariant_settle [OF inv1 this] show ?thesis using e by simp
  next
    case (Some h)
    from cacheInvariant_cached [OF assms Some] have h: "h < length (attempts s)" by simp
    show ?thesis
    proof (cases "snd (attempts s ! h)")
      case Pending
      then show ?thesis
        using True Some cacheInvariant_settle [OF assms h Pending]
        by (simp add: ensureIndexReady_def awaitAttempt_def Let_def)
    next
      case Fulfilled
      then show ?thesis
        using True Some assms by (simp add: ensureIndexReady_def awaitAttempt_def)
    next
      case (Rejected e)
      then show ?thesis
        using True Some assms by (simp add: ensureIndexReady_def awaitAttempt_def)
    qed
  qed
qed

lemma example_initializer_bad:
  "initializer exampleServices ''bad'' = (Inl (ServiceError ''quota''), [ListIndexes, CreateIndex ''bad''])"
proof -
  have l: "listIndexes exampleServices = Returns (ListingArray [ItemString ''video-frames''])"
    by (simp add: exampleServices_def)
  have c: "createIndex exampleServices ''bad'' = Throws ''quota''"
    by (simp add: exampleServices_def)
  show ?thesis by (simp add: initializer_def l c itemNames_def)
qed


text \<open>
  Claim C2. A call of \<open>ensureIndexReady\<close> that finds a promise under the name has no
  effect of its own, creates no promise, and returns the outcome of the promise it
  found. A call that finds none runs one initializer, which begins by listing the
  indexes, and keeps its promise under the name unless the initializer fails; after a
  failure the name has no entry, and the next call runs the initializer again. However
  calls and settlements interleave, the map and the promises agree and at most one
  attempt per name is in flight.
\<close>

theorem ensureIndexReady_single_attempt:
  "(hasPineconeClient cfg \<and> indexInitPromises s name = Some h \<longrightarrow>
      fst (snd (ensureIndexReady cfg svc s name)) = []
      \<and> length (attempts (snd (snd (ensureIndexReady cfg svc s name)))) = length (attempts s)
      \<and> fst (ensureIndexReady cfg svc s name)
          = (case snd (attempts s ! h) of
               Fulfilled \<Rightarrow> Inr ()
             | Rejected e \<Rightarrow> Inl e
             | Pending \<Rightarrow> fst (initializer svc (fst (attempts s ! h))))
      \<and> step s (Call name) = s)
   \<and> (hasPineconeClient cfg \<and> indexInitPromises s name = None \<longrightarrow>
      fst (ensureIndexReady cfg svc s name) = fst (initializer svc name)
      \<and> fst (snd (ensureIndexReady cfg svc s name)) = snd (initializer svc name)
      \<and> length (attempts (snd (snd (ensureIndexReady cfg svc s name)))) = Suc (length (attempts s))
      \<and> indexInitPromises (snd (snd (ensureIndexReady cfg svc s name))) name
          = (case fst (initializer svc name) of
               Inl e \<Rightarrow> None
             | Inr u \<Rightarrow> Some (length (attempts s))))
   \<and> (hasPineconeClient cfg \<and> indexInitPromises s name = None
        \<and> fst (initializer svc name) = Inl err \<longrightarrow>
      indexInitPromises (snd (snd (ensureIndexReady cfg svc s name))) name = None
      \<and> fst (snd (ensureIndexReady cfg svc (snd (snd (ensureIndexReady cfg svc s name))) name))
          = snd (initializer svc name)
      \<and> length (attempts (snd (snd (ensureIndexReady cfg svc
                                       (snd (snd (ensureIndexReady cfg svc s name))) name))))
          = length (attempts s) + 2)
   \<and> (k < length (attempts s) \<longrightarrow>
        indexInitPromises (settleAttempt s k (Inl err)) (fst (attempts s ! k)) = None)
   \<and> hd (snd (initializer svc name)) = ListIndexes
   \<and> cacheInvariant (runEvents evs)
   \<and> length (inFlight (runEvents evs) name) \<le> 1
   \<and> (cacheInvariant s \<longrightarrow>
        cacheInvariant (snd (snd (ensureIndexReady cfg svc s name)))
        \<and> cacheInvariant (step s ev)
        \<and> length (inFlight s name) \<le> 1)"
proof (intro conjI)
  show "hasPineconeClient cfg \<and> indexInitPromises s name = Some h \<longrightarrow>
      fst (snd (ensureIndexReady cfg svc s name)) = []
      \<and> length (attempts (snd (snd (ensureIndexReady cfg svc s name)))) = length (attempts s)
      \<and> fst (ensureIndexReady cfg svc s name)
          = (case snd (attempts s ! h) of
               Fulfilled \<Rightarrow> Inr ()
             | Rejected e \<Rightarrow> Inl e
             | Pending \<Rightarrow> fst (initializer svc (fst (attempts s ! h))))
      \<and> step s (Call name) = s"
    using ensure_joined [of cfg s name h svc] by blast
  show "hasPineconeClient cfg \<and> indexInitPromises s name = None \<longrightarrow>
      fst (ensureIndexReady cfg svc s name) = fst (initializer svc name)
      \<and> fst (snd (ensureIndexReady cfg svc s name)) = snd (initializer svc name)
      \<and> length (attempts (snd (snd (ensureIndexReady cfg svc s name)))) = Suc (length (attempts s))
      \<and> indexInitPromises (snd (snd (ensureIndexReady cfg svc s name))) name
          = (case fst (initializer svc name) of
               Inl e \<Rightarrow> None
             | Inr u \<Rightarrow> Some (length (attempts s)))"
    using ensure_fresh [of cfg s name svc] by blast
  show "hasPineconeClient cfg \<and> indexInitPromises s name = None
        \<and> fst (initializer svc name) = Inl err \<longrightarrow>
      indexInitPromises (snd (snd (ensureIndexReady cfg svc s name))) name = None
      \<and> fst (snd (ensureIndexReady cfg svc (snd (snd (ensureIndexReady cfg svc s name))) name))
          = snd (initializer svc name)
      \<and> length (attempts (snd (snd (ensureIndexReady cfg svc
                                       (snd (snd (ensureIndexReady cfg svc s name))) name))))
          = length (attempts s) + 2"
    using ensure_retry_after_failure [of cfg s name svc err] by blast
  show "k < length (attempts s) \<longrightarrow>
        indexInitPromises (settleAttempt s k (Inl err)) (fst (attempts s ! k)) = None"
    by (simp add: settleAttempt_evicts)
  show "hd (snd (initializer svc name)) = ListIndexes"
    by (rule initializer_begins)
  show "cacheInvariant (runEvents evs)"
    by (rule cacheInvariant_runEvents)
  show "length (inFlight (runEvents evs) name) \<le> 1"
    by (rule inFlight_at_most_one) (rule cacheInvariant_runEvents)
  show "cacheInvariant s \<longrightarrow>
        cacheInvariant (snd (snd (ensureIndexReady cfg svc s name)))
        \<and> cacheInvariant (step s ev)
        \<and> length (inFlight s name) \<le> 1"
    using ensureIndexReady_invariant [of s cfg svc name] cacheInvariant_step [of s ev]
      inFlight_at_most_one [of s name]
    by blast
qed

theorem ensureIndexReady_single_attempt_witness:
  "hasPineconeClient exampleConfig
   \<and> indexInitPromises
        (snd (snd (ensureIndexReady exampleConfig exampleServices noAttempts ''video-frames'')))
        ''video-frames'' = Some 0
   \<and> fst (snd (ensureIndexReady exampleConfig exampleServices
                 (snd (snd (ensureIndexReady exampleConfig exampleServices noAttempts ''video-frames'')))
                 ''video-frames'')) = []
   \<and> fst (ensureIndexReady exampleConfig exampleServices
            (snd (snd (ensureIndexReady exampleConfig exampleServices noAttempts ''video-frames'')))
            ''video-frames'') = Inr ()
   \<and> indexInitPromises noAttempts ''bad'' = None
   \<and> fst (initializer exampleServices ''bad'') = Inl (ServiceError ''quota'')
   \<and> indexInitPromises
        (snd (snd (ensureIndexReady exampleConfig exampleServices noAttempts ''bad''))) ''bad'' = None
   \<and> fst (snd (ensureIndexReady exampleConfig exampleServices
                 (snd (snd (ensureIndexReady exampleConfig exampleServices noAttempts ''bad'')))
                 ''bad'')) = [ListIndexes, CreateIndex ''bad'']
   \<and> inFlight (runEvents [Call ''x'', Call ''x'', Settle 0 (Inl (ServiceError ''quota'')), Call ''x''])
        ''x'' = [1]
   \<and> length (inFlight
        (runEvents [Call ''x'', Call ''x'', Settle 0 (Inl (ServiceError ''quota'')), Call ''x''])
        ''x'') \<le> 1"
proof -
  let ?s1 = "snd (snd (ensureIndexReady exampleConfig exampleServices noAttempts ''video-frames''))"
  let ?evs = "[Call ''x'', Call ''x'', Settle 0 (Inl (ServiceError ''quota'')), Call ''x'']"
  have c: "hasPineconeClient exampleConfig"
    by (simp add: hasPineconeClient_def exampleConfig_def)
  have s1: "?s1 = \<lparr>attempts = [(''video-frames'', Fulfilled)],
                    indexInitPromises = [''video-frames'' \<mapsto> 0]\<rparr>"
    by (simp add: example_ensure)
  have h1: "indexInitPromises ?s1 ''video-frames'' = Some 0"
    by (simp add: s1)
  have f: "snd (attempts ?s1 ! 0) = Fulfilled"
    by (simp add: s1)
  have j: "fst (snd (ensureIndexReady exampleConfig exampleServices ?s1 ''video-frames'')) = []
           \<and> fst (ensureIndexReady exampleConfig exampleServices ?s1 ''video-frames'') = Inr ()"
    using ensureIndexReady_single_attempt [of exampleConfig ?s1 "''video-frames''" 0 exampleServices]
      c h1 f
    by simp
  have n: "indexInitPromises noAttempts ''bad'' = None"
    by (simp add: noAttempts_def)
  have i: "fst (initializer exampleServices ''bad'') = Inl (ServiceError ''quota'')"
    by (simp add: example_initializer_bad)
  have r: "indexInitPromises
             (snd (snd (ensureIndexReady exampleConfig exampleServices noAttempts ''bad''))) ''bad'' = None
           \<and> fst (snd (ensureIndexReady exampleConfig exampleServices
                 (snd (snd (ensureIndexReady exampleConfig exampleServices noAttempts ''bad'')))
                 ''bad'')) = [ListIndexes, CreateIndex ''bad'']"
    using ensureIndexReady_single_attempt [of exampleConfig noAttempts "''bad''" _ exampleServices
        "ServiceError ''quota''"] c n i
    by (simp add: example_initializer_bad)
  have e: "inFlight (runEvents ?evs) ''x'' = [1]"
    by (simp add: runEvents_def noAttempts_def startAttempt_def settleAttempt_def inFlight_def
          upt_rec [of 0] upt_rec [of 1])
  have m: "length (inFlight (runEvents ?evs) ''x'') \<le> 1"
    using ensureIndexReady_single_attempt [of _ _ "''x''" _ _ _ _ ?evs] by blast
  show ?thesis using c h1 j n i r e m by blast
qed

end
